theory Spec2Isabelle
  imports Main "HOL-Library.Char_ord" "HOL-Library.List_Lexorder"
begin

section \<open>The OAuth 2.0 device code client (DeviceCodeClient.ts)\<close>

text \<open>
  A shallow embedding of \<^verbatim>\<open>lib/msal-common/src/client/DeviceCodeClient.ts\<close>.
  The class is asynchronous and effectful; the embedding makes the effects explicit:
  \<^item> every request, callback invocation and log line is an \<open>event\<close> appended to a trace;
  \<^item> a promise is a value \<open>Pending\<close>, \<open>Resolved v\<close> or \<open>Rejected e\<close>;
  \<^item> the polling engine runs on the event loop: a \<open>step\<close> is either a firing of the
    interval timer, which runs the timer callback up to its \<^verbatim>\<open>await\<close>, or the arrival of
    the answer to an outstanding POST, which runs the rest of the callback. The steps
    come in any order the event loop can produce: the timer fires again while POSTs are
    outstanding, and answers arrive after the timer has been cleared;
  \<^item> what the outside world answers (the transport, the clock, the caller's cancellation
    flag) is an input, carried by the steps.
\<close>

subsection \<open>JavaScript numbers and values\<close>

text \<open>
  A response field that the server left out reads as \<^verbatim>\<open>undefined\<close>: every field of a
  response is an \<open>option\<close>. Arithmetic on \<^verbatim>\<open>undefined\<close> gives \<^verbatim>\<open>NaN\<close>, and every
  comparison with \<^verbatim>\<open>NaN\<close> is false. Seconds and milliseconds are whole numbers.
\<close>

datatype jsnum = Num int | NaN

fun toNumber :: "int option \<Rightarrow> jsnum" where
  "toNumber None = NaN"
| "toNumber (Some n) = Num n"

fun js_add :: "jsnum \<Rightarrow> jsnum \<Rightarrow> jsnum" where
  "js_add (Num a) (Num b) = Num (a + b)"
| "js_add _ _ = NaN"

fun js_mul :: "jsnum \<Rightarrow> jsnum \<Rightarrow> jsnum" where
  "js_mul (Num a) (Num b) = Num (a * b)"
| "js_mul _ _ = NaN"

fun js_gt :: "jsnum \<Rightarrow> jsnum \<Rightarrow> bool" where
  "js_gt (Num a) (Num b) = (b < a)"
| "js_gt _ _ = False"

subsection \<open>Data model\<close>

text \<open>
  The errors a promise of this class can be rejected with: the two client errors the class
  creates itself, the \<^verbatim>\<open>TypeError\<close> of a destructuring of an absent body, and whatever a
  collaborator (authority resolution, transport, the caller's callback) throws, which the
  class passes on unchanged.
\<close>

datatype error =
    DeviceCodeCancelledError
  | DeviceCodeExpiredError
  | TypeError
  | Thrown string

datatype 'a promise = Pending | Resolved 'a | Rejected error

record Authority =
  canonicalAuthority :: string
  tokenEndpoint :: string

record Configuration =
  clientId :: string

text \<open>The body of the device code endpoint's reply (\<^verbatim>\<open>ServerDeviceCodeResponse\<close>).\<close>

record ServerDeviceCodeResponse =
  user_code :: "string option"
  device_code :: "string option"
  verification_uri :: "string option"
  expires_in :: "int option"
  server_interval :: "int option"
  server_message :: "string option"

record DeviceCodeResponse =
  userCode :: "string option"
  deviceCode :: "string option"
  verificationUri :: "string option"
  expiresIn :: "int option"
  interval :: "int option"
  message :: "string option"

text \<open>The body of the token endpoint's reply (\<^verbatim>\<open>ServerAuthorizationTokenResponse\<close>).\<close>

record ServerAuthorizationTokenResponse =
  error :: "string option"
  error_description :: "string option"
  access_token :: "string option"
  refresh_token :: "string option"
  id_token :: "string option"

text \<open>
  \<^verbatim>\<open>DeviceCodeRequest\<close>. Its \<^verbatim>\<open>cancel\<close> field is mutable and read afresh at every firing
  of the timer, so it is part of the \<open>Fire\<close> step; its \<^verbatim>\<open>deviceCodeCallback\<close> is the caller's code, of which
  only the outcome matters here: it returns (\<open>None\<close>) or throws (\<open>Some e\<close>).
\<close>

record DeviceCodeRequest =
  scopes :: "string list option"
  authority :: "string option"
  deviceCodeCallback :: "DeviceCodeResponse \<Rightarrow> error option"

datatype event =
    ResolveAuthority "string option"
  | DeviceCodeGet string
  | Callback DeviceCodeResponse
  | SetInterval jsnum
  | TokenPost string string
  | LogErrorCancelled
  | LogErrorExpired jsnum
  | LogInfo "string option"

fun is_post :: "event \<Rightarrow> bool" where
  "is_post (TokenPost _ _) = True"
| "is_post _ = False"

fun is_callback :: "event \<Rightarrow> bool" where
  "is_callback (Callback _) = True"
| "is_callback _ = False"

fun is_get :: "event \<Rightarrow> bool" where
  "is_get (DeviceCodeGet _) = True"
| "is_get _ = False"

text \<open>The events of the polling engine: the timer set-up, the POSTs and the log lines.\<close>

fun is_polling_event :: "event \<Rightarrow> bool" where
  "is_polling_event (ResolveAuthority _) = False"
| "is_polling_event (DeviceCodeGet _) = False"
| "is_polling_event (Callback _) = False"
| "is_polling_event _ = True"

definition posts :: "event list \<Rightarrow> nat" where
  "posts tr = length (filter is_post tr)"

text \<open>
  The steps of the polling engine on the event loop.
  \<^item> \<open>Fire c t\<close>: the interval timer fires; the callback reads \<^verbatim>\<open>request.cancel\<close> as \<open>c\<close>
    and \<^verbatim>\<open>TimeUtils.nowSeconds()\<close> as \<open>t\<close>.
  \<^item> \<open>Answer a\<close>: the promise of one outstanding \<^verbatim>\<open>executePostToTokenEndpoint\<close> settles:
    it is rejected (\<open>Inl\<close>), or fulfilled with a response whose body is absent (\<open>None\<close>)
    or present. All POSTs of one flow are the same request, so it does not matter which
    of the outstanding POSTs an answer belongs to.
\<close>

datatype step =
    Fire bool int
  | Answer "error + ServerAuthorizationTokenResponse option"

fun is_fire :: "step \<Rightarrow> bool" where
  "is_fire (Fire _ _) = True"
| "is_fire (Answer _) = False"

definition fires :: "step list \<Rightarrow> nat" where
  "fires sched = length (filter is_fire sched)"

definition answers :: "step list \<Rightarrow> nat" where
  "answers sched = length (filter (\<lambda>st. \<not> is_fire st) sched)"

text \<open>The clock readings of the firings, in order.\<close>

fun fire_clocks :: "step list \<Rightarrow> int list" where
  "fire_clocks [] = []"
| "fire_clocks (Fire c t # sched) = t # fire_clocks sched"
| "fire_clocks (Answer a # sched) = fire_clocks sched"

text \<open>
  The state of one call of \<^verbatim>\<open>acquireTokenWithDeviceCode\<close>: the promise it returned, whether
  the interval timer is still set, the number of POSTs that are awaited, and the events so
  far.
\<close>

record poll_state =
  promise :: "ServerAuthorizationTokenResponse option promise"
  timer_active :: bool
  awaiting :: nat
  trace :: "event list"

text \<open>
  What the collaborators answer during one call of \<^verbatim>\<open>acquireToken\<close>: the outcome of
  \<^verbatim>\<open>createAuthority\<close>, the outcome of the one GET to the device code endpoint (it throws,
  or returns a response whose body is absent or present), the clock reading taken when
  polling is set up (line 126), and the steps of the polling engine so far.
\<close>

record world =
  createAuthority_result :: "error + Authority"
  get_result :: "error + ServerDeviceCodeResponse option"
  start_now :: int
  schedule :: "step list"

subsection \<open>Constants\<close>

text \<open>
  Modelled from the spec: \<^verbatim>\<open>Constants.AUTHORIZATION_PENDING\<close> (utils/Constants) is not
  among the sources; the spec names the error code \<^verbatim>\<open>authorization_pending\<close>.
\<close>

definition AUTHORIZATION_PENDING :: string where
  "AUTHORIZATION_PENDING = ''authorization_pending''"

text \<open>
  Modelled from the spec: \<^verbatim>\<open>GrantType.DEVICE_CODE_GRANT\<close> (utils/Constants) is not among
  the sources; the spec gives the token request the parameter \<^verbatim>\<open>grant_type=device_code\<close>.
\<close>

definition DEVICE_CODE_GRANT :: string where
  "DEVICE_CODE_GRANT = ''device_code''"

text \<open>
  What the sources use and neither they nor the spec fix, taken as parameters:
  \<^verbatim>\<open>Constants.DEVICE_CODE_ENDPOINT_PATH\<close>, and the default scopes that a \<^verbatim>\<open>ScopeSet\<close>
  built for a client id and a flag (the constructor's second and third argument) requires.
\<close>

record externals =
  DEVICE_CODE_ENDPOINT_PATH :: string
  required_scopes :: "string \<Rightarrow> bool \<Rightarrow> string list"

subsection \<open>The request builder\<close>

text \<open>
  \<^verbatim>\<open>encodeURIComponent\<close> over bytes: the unreserved characters stay, every other byte
  becomes a percent sign and two upper-case hexadecimal digits.
\<close>

definition unreserved :: "char \<Rightarrow> bool" where
  "unreserved c \<longleftrightarrow>
     c \<in> set (''ABCDEFGHIJKLMNOPQRSTUVWXYZabcdefghijklmnopqrstuvwxyz0123456789-_.!~*()'' @ [CHR 0x27])"

definition hex_digit :: "nat \<Rightarrow> char" where
  "hex_digit n = ''0123456789ABCDEF'' ! (n mod 16)"

definition encodeURIComponent :: "string \<Rightarrow> string" where
  "encodeURIComponent s =
     concat (map (\<lambda>c. if unreserved c then [c]
                       else [CHR ''%'', hex_digit (of_char c div 16), hex_digit (of_char c)]) s)"

fun join :: "string \<Rightarrow> string list \<Rightarrow> string" where
  "join sep [] = []"
| "join sep [x] = x"
| "join sep (x # y # ys) = x @ sep @ join sep (y # ys)"

text \<open>A value interpolated into a string: \<^verbatim>\<open>undefined\<close> prints as the word.\<close>

fun js_string :: "string option \<Rightarrow> string" where
  "js_string None = ''undefined''"
| "js_string (Some s) = s"

text \<open>
  Modelled from the spec: the class \<^verbatim>\<open>ScopeSet\<close> (request/ScopeSet) is not among the
  sources. The spec (4.1, 8) asks for set semantics and an order-independent canonical
  form: the input scopes and the required default scopes are merged, a scope occurs once,
  and the scopes are listed in one fixed order, here the lexicographic one.
\<close>

definition ScopeSet :: "externals \<Rightarrow> string list \<Rightarrow> string \<Rightarrow> bool \<Rightarrow> string list" where
  "ScopeSet x inputScopes appClientId flag =
     sort (remdups (inputScopes @ required_scopes x appClientId flag))"

text \<open>
  Modelled from the spec: the class \<^verbatim>\<open>RequestParameterBuilder\<close>
  (server/RequestParameterBuilder) is not among the sources. The spec (4.1, 6) has it
  assemble URL-encoded parameters named \<^verbatim>\<open>scope\<close>, \<^verbatim>\<open>client_id\<close>, \<^verbatim>\<open>grant_type\<close> and
  \<^verbatim>\<open>device_code\<close>, the scopes as one space-delimited parameter, in a stable order: here
  the order in which the parameters were added.
\<close>

type_synonym RequestParameterBuilder = "(string \<times> string) list"

definition addScopes :: "string list \<Rightarrow> RequestParameterBuilder \<Rightarrow> RequestParameterBuilder" where
  "addScopes scopeSet b = b @ [(''scope'', encodeURIComponent (join '' '' scopeSet))]"

definition addClientId :: "string \<Rightarrow> RequestParameterBuilder \<Rightarrow> RequestParameterBuilder" where
  "addClientId cid b = b @ [(''client_id'', encodeURIComponent cid)]"

definition addGrantType :: "string \<Rightarrow> RequestParameterBuilder \<Rightarrow> RequestParameterBuilder" where
  "addGrantType g b = b @ [(''grant_type'', encodeURIComponent g)]"

definition addDeviceCode :: "string option \<Rightarrow> RequestParameterBuilder \<Rightarrow> RequestParameterBuilder" where
  "addDeviceCode d b = b @ [(''device_code'', encodeURIComponent (js_string d))]"

definition builder_createQueryString :: "RequestParameterBuilder \<Rightarrow> string" where
  "builder_createQueryString b = join ''&'' (map (\<lambda>(k, v). k @ ''='' @ v) b)"

text \<open>\<^verbatim>\<open>request.scopes || []\<close>\<close>

fun scopes_or_empty :: "string list option \<Rightarrow> string list" where
  "scopes_or_empty None = []"
| "scopes_or_empty (Some ss) = ss"

text \<open>\<^verbatim>\<open>createQueryString\<close> (lines 100 to 111), from the source.\<close>

definition createQueryString :: "externals \<Rightarrow> Configuration \<Rightarrow> DeviceCodeRequest \<Rightarrow> string" where
  "createQueryString x config request =
     (let scopeSet = ScopeSet x (scopes_or_empty (scopes request)) (clientId config) False
      in builder_createQueryString (addClientId (clientId config) (addScopes scopeSet [])))"

text \<open>\<^verbatim>\<open>createDeviceCodeUrl\<close> (lines 90 to 95).\<close>

definition createDeviceCodeUrl ::
    "externals \<Rightarrow> Configuration \<Rightarrow> Authority \<Rightarrow> DeviceCodeRequest \<Rightarrow> string" where
  "createDeviceCodeUrl x config auth request =
     canonicalAuthority auth @ DEVICE_CODE_ENDPOINT_PATH x @ ''?''
       @ createQueryString x config request"

text \<open>\<^verbatim>\<open>createTokenRequestBody\<close> (lines 173 to 185).\<close>

definition createTokenRequestBody ::
    "externals \<Rightarrow> Configuration \<Rightarrow> DeviceCodeRequest \<Rightarrow> DeviceCodeResponse \<Rightarrow> string" where
  "createTokenRequestBody x config request deviceCodeResponse =
     (let scopeSet = ScopeSet x (scopes_or_empty (scopes request)) (clientId config) True
      in builder_createQueryString
           (addDeviceCode (deviceCode deviceCodeResponse)
             (addGrantType DEVICE_CODE_GRANT
               (addClientId (clientId config) (addScopes scopeSet [])))))"

subsection \<open>The device code endpoint client\<close>

text \<open>
  \<^verbatim>\<open>executeGetRequestToDeviceCodeEndpoint\<close> (lines 63 to 84), applied to the outcome of
  \<^verbatim>\<open>sendGetRequestAsync\<close>. A rejection of the transport passes through the \<^verbatim>\<open>await\<close>;
  destructuring an absent body throws a \<^verbatim>\<open>TypeError\<close>; the six fields of a body are
  copied as they are.
\<close>

definition executeGetRequestToDeviceCodeEndpoint ::
    "error + ServerDeviceCodeResponse option \<Rightarrow> error + DeviceCodeResponse" where
  "executeGetRequestToDeviceCodeEndpoint r =
     (case r of
        Inl e \<Rightarrow> Inl e
      | Inr None \<Rightarrow> Inl TypeError
      | Inr (Some b) \<Rightarrow>
          Inr \<lparr>userCode = user_code b,
               deviceCode = device_code b,
               verificationUri = verification_uri b,
               expiresIn = expires_in b,
               interval = server_interval b,
               message = server_message b\<rparr>)"

text \<open>
  \<^verbatim>\<open>getDeviceCode\<close> (lines 50 to 56): the request it sends, and its result.
\<close>

definition getDeviceCode ::
    "externals \<Rightarrow> Configuration \<Rightarrow> Authority \<Rightarrow> world \<Rightarrow> DeviceCodeRequest
       \<Rightarrow> event list \<times> (error + DeviceCodeResponse)" where
  "getDeviceCode x config auth w request =
     (let deviceCodeUrl = createDeviceCodeUrl x config auth request
      in ([DeviceCodeGet deviceCodeUrl], executeGetRequestToDeviceCodeEndpoint (get_result w)))"

subsection \<open>The polling engine: acquireTokenWithDeviceCode\<close>

text \<open>\<^verbatim>\<open>resolve\<close> and \<^verbatim>\<open>reject\<close> settle a pending promise and leave a settled one alone.\<close>

fun settle :: "'a promise \<Rightarrow> 'a promise \<Rightarrow> 'a promise" where
  "settle Pending p = p"
| "settle q p = q"

text \<open>\<^verbatim>\<open>clearInterval(intervalId)\<close> followed by \<^verbatim>\<open>resolve\<close> or \<^verbatim>\<open>reject\<close>.\<close>

definition stop_with ::
    "ServerAuthorizationTokenResponse option promise \<Rightarrow> poll_state \<Rightarrow> poll_state" where
  "stop_with p s = s\<lparr>timer_active := False, promise := settle (promise s) p\<rparr>"

definition emit :: "event \<Rightarrow> poll_state \<Rightarrow> poll_state" where
  "emit ev s = s\<lparr>trace := trace s @ [ev]\<rparr>"

text \<open>
  The interval callback from its start to the \<^verbatim>\<open>await\<close> (lines 134 to 150), with the
  variables it closes over as arguments: the token endpoint, the request body and
  \<^verbatim>\<open>deviceCodeExpirationTime\<close>. When the flag is not set and the device code has not
  expired, the POST is sent and the callback is suspended until the answer arrives.
\<close>

definition fire :: "string \<Rightarrow> string \<Rightarrow> jsnum \<Rightarrow> bool \<Rightarrow> int \<Rightarrow> poll_state \<Rightarrow> poll_state" where
  "fire endpoint requestBody deviceCodeExpirationTime c t s =
    (if c then
       stop_with (Rejected DeviceCodeCancelledError) (emit LogErrorCancelled s)
     else if js_gt (Num t) deviceCodeExpirationTime then
       stop_with (Rejected DeviceCodeExpiredError)
         (emit (LogErrorExpired deviceCodeExpirationTime) s)
     else
       (emit (TokenPost endpoint requestBody) s)\<lparr>awaiting := Suc (awaiting s)\<rparr>)"

text \<open>
  The interval callback from the \<^verbatim>\<open>await\<close> to its end (lines 152 to 163), applied to the
  answer of the POST. The \<^verbatim>\<open>catch\<close> clause is the \<open>Inl\<close> branch.
\<close>

definition resume ::
    "error + ServerAuthorizationTokenResponse option \<Rightarrow> poll_state \<Rightarrow> poll_state" where
  "resume a s =
    (case a of
       Inl e \<Rightarrow> stop_with (Rejected e) s
     | Inr None \<Rightarrow> stop_with (Resolved None) s
     | Inr (Some b) \<Rightarrow>
         (if error b = Some AUTHORIZATION_PENDING then emit (LogInfo (error_description b)) s
          else stop_with (Resolved (Some b)) s))"

text \<open>
  One turn of the event loop. The timer fires only as long as it has not been cleared.
  An answer belongs to an outstanding POST: when none is outstanding there is no answer,
  and the step does nothing. An answer that arrives after the timer has been cleared
  still runs the rest of its callback.
\<close>

fun turn :: "string \<Rightarrow> string \<Rightarrow> jsnum \<Rightarrow> step \<Rightarrow> poll_state \<Rightarrow> poll_state" where
  "turn endpoint requestBody expiry (Fire c t) s =
     (if timer_active s then fire endpoint requestBody expiry c t s else s)"
| "turn endpoint requestBody expiry (Answer a) s =
     (case awaiting s of
        0 \<Rightarrow> s
      | Suc n \<Rightarrow> resume a (s\<lparr>awaiting := n\<rparr>))"

fun run :: "string \<Rightarrow> string \<Rightarrow> jsnum \<Rightarrow> step list \<Rightarrow> poll_state \<Rightarrow> poll_state" where
  "run endpoint requestBody expiry [] s = s"
| "run endpoint requestBody expiry (st # sched) s =
     run endpoint requestBody expiry sched (turn endpoint requestBody expiry st s)"

definition deviceCodeExpirationTime :: "int \<Rightarrow> DeviceCodeResponse \<Rightarrow> jsnum" where
  "deviceCodeExpirationTime now0 deviceCodeResponse =
     js_add (Num now0) (toNumber (expiresIn deviceCodeResponse))"

definition pollingIntervalMilli :: "DeviceCodeResponse \<Rightarrow> jsnum" where
  "pollingIntervalMilli deviceCodeResponse =
     js_mul (toNumber (interval deviceCodeResponse)) (Num 1000)"

definition polling_start :: "jsnum \<Rightarrow> poll_state" where
  "polling_start delay =
     \<lparr>promise = Pending, timer_active = True, awaiting = 0, trace = [SetInterval delay]\<rparr>"

text \<open>
  \<^verbatim>\<open>acquireTokenWithDeviceCode\<close> (lines 119 to 166): \<open>now0\<close> is the clock reading of line
  126, \<open>sched\<close> the steps of the event loop so far. The promise of the state it returns is
  \<open>Pending\<close> while the flow is still polling.
\<close>

definition acquireTokenWithDeviceCode ::
    "externals \<Rightarrow> Configuration \<Rightarrow> Authority \<Rightarrow> DeviceCodeRequest \<Rightarrow> DeviceCodeResponse
       \<Rightarrow> int \<Rightarrow> step list \<Rightarrow> poll_state" where
  "acquireTokenWithDeviceCode x config auth request deviceCodeResponse now0 sched =
     (let requestBody = createTokenRequestBody x config request deviceCodeResponse
      in run (tokenEndpoint auth) requestBody
           (deviceCodeExpirationTime now0 deviceCodeResponse) sched
           (polling_start (pollingIntervalMilli deviceCodeResponse)))"

subsection \<open>The orchestrator: acquireToken\<close>

text \<open>The string that \<^verbatim>\<open>JSON.stringify\<close> makes of a value, kept symbolic.\<close>

datatype json = JSON_stringify "ServerAuthorizationTokenResponse option"

fun then_stringify :: "ServerAuthorizationTokenResponse option promise \<Rightarrow> json promise" where
  "then_stringify Pending = Pending"
| "then_stringify (Resolved response) = Resolved (JSON_stringify response)"
| "then_stringify (Rejected e) = Rejected e"

text \<open>
  \<^verbatim>\<open>acquireToken\<close> (lines 34 to 44): the events it causes, in order, and the promise it
  returns. Each \<^verbatim>\<open>await\<close> of a rejected promise, and a callback that throws, rejects the
  promise of \<^verbatim>\<open>acquireToken\<close> and ends the function there.
\<close>

definition acquireToken ::
    "externals \<Rightarrow> Configuration \<Rightarrow> world \<Rightarrow> DeviceCodeRequest \<Rightarrow> event list \<times> json promise" where
  "acquireToken x config w request =
     (case createAuthority_result w of
        Inl e \<Rightarrow> ([ResolveAuthority (authority request)], Rejected e)
      | Inr auth \<Rightarrow>
          (case getDeviceCode x config auth w request of
             (evs, Inl e) \<Rightarrow> (ResolveAuthority (authority request) # evs, Rejected e)
           | (evs, Inr deviceCodeResponse) \<Rightarrow>
               (case deviceCodeCallback request deviceCodeResponse of
                  Some e \<Rightarrow>
                    (ResolveAuthority (authority request) # evs @ [Callback deviceCodeResponse],
                     Rejected e)
                | None \<Rightarrow>
                    (let s = acquireTokenWithDeviceCode x config auth request
                               deviceCodeResponse (start_now w) (schedule w)
                     in (ResolveAuthority (authority request) # evs
                           @ [Callback deviceCodeResponse] @ trace s,
                         then_stringify (promise s))))))"

subsection \<open>The interval timer\<close>

text \<open>
  The delay that \<^verbatim>\<open>setInterval\<close> uses (Node.js timers): a delay that is \<^verbatim>\<open>NaN\<close>, less
  than 1 or more than 2147483647 is set to 1 millisecond.
\<close>

fun timer_delay :: "jsnum \<Rightarrow> int" where
  "timer_delay NaN = 1"
| "timer_delay (Num n) = (if n < 1 \<or> 2147483647 < n then 1 else n)"

text \<open>
  \<^verbatim>\<open>setInterval(callback, delay)\<close> does not call the callback when it is set up: the
  firing number \<open>k\<close> (counting from 1) is due \<open>k\<close> delays later.
\<close>

definition firing_due :: "jsnum \<Rightarrow> nat \<Rightarrow> int" where
  "firing_due delay k = int k * timer_delay delay"

text \<open>
  A timed schedule gives every step the time, in milliseconds after line 133, at which it
  happens. The timer is exact when the steps are listed in the order of their times and
  the firing number \<open>k\<close> happens when it is due.
\<close>

type_synonym timed_step = "int \<times> step"

fun due_times :: "jsnum \<Rightarrow> nat \<Rightarrow> timed_step list \<Rightarrow> bool" where
  "due_times delay j [] = True"
| "due_times delay j ((u, Fire c t) # ts) =
     (u = firing_due delay (Suc j) \<and> due_times delay (Suc j) ts)"
| "due_times delay j ((u, Answer a) # ts) = due_times delay j ts"

definition on_timer :: "jsnum \<Rightarrow> timed_step list \<Rightarrow> bool" where
  "on_timer delay ts \<longleftrightarrow> sorted (map fst ts) \<and> due_times delay 0 ts"

text \<open>The steps that have happened within the first \<open>t\<close> milliseconds.\<close>

definition steps_until :: "int \<Rightarrow> timed_step list \<Rightarrow> step list" where
  "steps_until t ts = map snd (filter (\<lambda>(u, st). u \<le> t) ts)"

text \<open>The state of the polling engine \<open>t\<close> milliseconds after line 133.\<close>

definition acquireTokenWithDeviceCode_after ::
    "externals \<Rightarrow> Configuration \<Rightarrow> Authority \<Rightarrow> DeviceCodeRequest \<Rightarrow> DeviceCodeResponse
       \<Rightarrow> int \<Rightarrow> timed_step list \<Rightarrow> int \<Rightarrow> poll_state" where
  "acquireTokenWithDeviceCode_after x config auth request deviceCodeResponse now0 ts t =
     acquireTokenWithDeviceCode x config auth request deviceCodeResponse now0 (steps_until t ts)"

text \<open>
  The timer never fires early: the clock reading of firing number \<open>k\<close> (counting from 1)
  is at least \<open>k\<close> intervals after the reading of line 126.
\<close>

definition on_schedule :: "int \<Rightarrow> int \<Rightarrow> int list \<Rightarrow> bool" where
  "on_schedule now0 secs clocks \<longleftrightarrow>
     (\<forall>k < length clocks. now0 + secs * (int k + 1) \<le> clocks ! k)"

subsection \<open>Kinds of step\<close>

text \<open>
  A firing reaches the POST when the flag is not set and the clock has not passed the
  expiration time. An answer is a pending answer when its body carries the error code
  \<^verbatim>\<open>authorization_pending\<close>. The flow is polling while its promise is pending and its timer
  is set.
\<close>

definition reaches_post :: "jsnum \<Rightarrow> bool \<Rightarrow> int \<Rightarrow> bool" where
  "reaches_post expiry c t \<longleftrightarrow> \<not> c \<and> \<not> js_gt (Num t) expiry"

fun is_pending_body :: "ServerAuthorizationTokenResponse option \<Rightarrow> bool" where
  "is_pending_body None = False"
| "is_pending_body (Some b) = (error b = Some AUTHORIZATION_PENDING)"

fun is_pending_answer :: "error + ServerAuthorizationTokenResponse option \<Rightarrow> bool" where
  "is_pending_answer (Inl e) = False"
| "is_pending_answer (Inr body) = is_pending_body body"

definition polling :: "poll_state \<Rightarrow> bool" where
  "polling s \<longleftrightarrow> promise s = Pending \<and> timer_active s"

text \<open>
  A schedule that keeps the flow polling, for a flow with \<open>n\<close> POSTs outstanding: every
  firing reaches the POST, and every answer is a pending answer to an outstanding POST.
\<close>

fun keeps_polling :: "jsnum \<Rightarrow> nat \<Rightarrow> step list \<Rightarrow> bool" where
  "keeps_polling expiry n [] = True"
| "keeps_polling expiry n (Fire c t # sched) =
     (reaches_post expiry c t \<and> keeps_polling expiry (Suc n) sched)"
| "keeps_polling expiry 0 (Answer a # sched) = False"
| "keeps_polling expiry (Suc n) (Answer a # sched) =
     (is_pending_answer a \<and> keeps_polling expiry n sched)"

text \<open>The events of a step that keeps the flow polling: the POST, or the log line.\<close>

fun answer_description ::
    "error + ServerAuthorizationTokenResponse option \<Rightarrow> string option" where
  "answer_description (Inr (Some b)) = error_description b"
| "answer_description _ = None"

fun polling_events :: "string \<Rightarrow> string \<Rightarrow> step \<Rightarrow> event list" where
  "polling_events endpoint requestBody (Fire c t) = [TokenPost endpoint requestBody]"
| "polling_events endpoint requestBody (Answer a) = [LogInfo (answer_description a)]"

text \<open>
  The events after the timer has been cleared, with \<open>n\<close> POSTs outstanding: no firing
  happens any more, and of the answers that still arrive the pending ones are logged.
\<close>

fun late_events :: "nat \<Rightarrow> step list \<Rightarrow> event list" where
  "late_events n [] = []"
| "late_events n (Fire c t # sched) = late_events n sched"
| "late_events 0 (Answer a # sched) = late_events 0 sched"
| "late_events (Suc n) (Answer a # sched) =
     (if is_pending_answer a then [LogInfo (answer_description a)] else [])
       @ late_events n sched"

text \<open>
  The flow has stopped when the timer is cleared and the promise is settled; the timer is
  set exactly as long as the promise is pending.
\<close>

definition stopped :: "poll_state \<Rightarrow> bool" where
  "stopped s \<longleftrightarrow> \<not> timer_active s \<and> promise s \<noteq> Pending"

definition consistent :: "poll_state \<Rightarrow> bool" where
  "consistent s \<longleftrightarrow> (timer_active s \<longleftrightarrow> promise s = Pending)"

subsection \<open>A concrete flow\<close>

text \<open>
  The client id and the authority of the sample application (samples/msal-node-extensions),
  a device code response with an interval of 5 seconds that expires in 16 seconds, and
  some answers of the token endpoint.
\<close>

definition sample_externals :: externals where
  "sample_externals =
     \<lparr>DEVICE_CODE_ENDPOINT_PATH = ''oauth2/v2.0/devicecode'',
      required_scopes = (\<lambda>appClientId flag. [''openid'', ''profile'', ''offline_access''])\<rparr>"

definition sample_config :: Configuration where
  "sample_config = \<lparr>clientId = ''99cab759-2aab-420b-91d8-5e3d8d4f063b''\<rparr>"

definition sample_authority :: Authority where
  "sample_authority =
     \<lparr>canonicalAuthority = ''https://login.microsoftonline.com/90b8faa8-cc95-460e-a618-ee770bee1759/'',
      tokenEndpoint = ''https://login.microsoftonline.com/90b8faa8-cc95-460e-a618-ee770bee1759/oauth2/v2.0/token''\<rparr>"

definition sample_request :: DeviceCodeRequest where
  "sample_request =
     \<lparr>scopes = Some [''openid''], authority = None, deviceCodeCallback = (\<lambda>response. None)\<rparr>"

definition sample_server_response :: ServerDeviceCodeResponse where
  "sample_server_response =
     \<lparr>user_code = Some ''FJC3XK9PD'',
      device_code = Some ''FAQABAAEAAAAm'',
      verification_uri = Some ''https://microsoft.com/devicelogin'',
      expires_in = Some 16,
      server_interval = Some 5,
      server_message = Some ''To sign in, open the page and enter the code''\<rparr>"

definition sample_response :: DeviceCodeResponse where
  "sample_response =
     \<lparr>userCode = Some ''FJC3XK9PD'',
      deviceCode = Some ''FAQABAAEAAAAm'',
      verificationUri = Some ''https://microsoft.com/devicelogin'',
      expiresIn = Some 16,
      interval = Some 5,
      message = Some ''To sign in, open the page and enter the code''\<rparr>"

definition pending_body :: ServerAuthorizationTokenResponse where
  "pending_body =
     \<lparr>error = Some ''authorization_pending'',
      error_description = Some ''The user has not yet signed in'',
      access_token = None, refresh_token = None, id_token = None\<rparr>"

definition declined_body :: ServerAuthorizationTokenResponse where
  "declined_body =
     \<lparr>error = Some ''authorization_declined'',
      error_description = Some ''The user declined the request'',
      access_token = None, refresh_token = None, id_token = None\<rparr>"

definition token_body :: ServerAuthorizationTokenResponse where
  "token_body =
     \<lparr>error = None, error_description = None,
      access_token = Some ''eyJ0eXAi'', refresh_token = Some ''0.AAAA'', id_token = None\<rparr>"

definition pending_answer :: "error + ServerAuthorizationTokenResponse option" where
  "pending_answer = Inr (Some pending_body)"

text \<open>An answer of the device code endpoint that lacks the device code and the interval.\<close>

definition incomplete_server_response :: ServerDeviceCodeResponse where
  "incomplete_server_response =
     \<lparr>user_code = Some ''FJC3XK9PD'',
      device_code = None,
      verification_uri = Some ''https://microsoft.com/devicelogin'',
      expires_in = Some 16,
      server_interval = None,
      server_message = Some ''To sign in, open the page and enter the code''\<rparr>"

definition sample_world :: "step list \<Rightarrow> world" where
  "sample_world sched =
     \<lparr>createAuthority_result = Inr sample_authority,
      get_result = Inr (Some sample_server_response),
      start_now = 100,
      schedule = sched\<rparr>"

text \<open>
  Four firings, 5 seconds apart, each answered with \<^verbatim>\<open>authorization_pending\<close>: the first
  two answers arrive only after the third firing.
\<close>

definition four_firings :: "step list" where
  "four_firings =
     [Fire False 105, Fire False 110, Answer pending_answer, Fire False 115,
      Answer pending_answer, Answer pending_answer, Fire False 120]"

definition four_firings_timed :: "timed_step list" where
  "four_firings_timed =
     [(5000, Fire False 105), (10000, Fire False 110), (10400, Answer pending_answer),
      (15000, Fire False 115), (15100, Answer pending_answer), (15200, Answer pending_answer),
      (20000, Fire False 120)]"

section \<open>Properties\<close>

subsection \<open>The turns of the polling engine\<close>

lemma run_append:
  "run ep rb ex (xs @ ys) s = run ep rb ex ys (run ep rb ex xs s)"
  by (induction xs arbitrary: s) simp_all

lemma turn_cancel:
  "polling s \<Longrightarrow>
   turn ep rb ex (Fire True t) s =
     s\<lparr>trace := trace s @ [LogErrorCancelled], timer_active := False,
       promise := Rejected DeviceCodeCancelledError\<rparr>"
  by (simp add: fire_def stop_with_def emit_def polling_def)

lemma turn_expired:
  "js_gt (Num t) ex \<Longrightarrow> polling s \<Longrightarrow>
   turn ep rb ex (Fire False t) s =
     s\<lparr>trace := trace s @ [LogErrorExpired ex], timer_active := False,
       promise := Rejected DeviceCodeExpiredError\<rparr>"
  by (simp add: fire_def stop_with_def emit_def polling_def)

lemma turn_post:
  "reaches_post ex c t \<Longrightarrow> polling s \<Longrightarrow>
   turn ep rb ex (Fire c t) s =
     s\<lparr>trace := trace s @ [TokenPost ep rb], awaiting := Suc (awaiting s)\<rparr>"
  by (simp add: fire_def emit_def polling_def reaches_post_def)

lemma turn_pending:
  "is_pending_answer a \<Longrightarrow> awaiting s = Suc n \<Longrightarrow>
   turn ep rb ex (Answer a) s =
     s\<lparr>awaiting := n, trace := trace s @ [LogInfo (answer_description a)]\<rparr>"
  by (cases a rule: is_pending_answer.cases; cases "projr a")
     (simp_all add: resume_def emit_def)

lemma turn_final:
  "\<not> is_pending_body body \<Longrightarrow> awaiting s = Suc n \<Longrightarrow> polling s \<Longrightarrow>
   turn ep rb ex (Answer (Inr body)) s =
     s\<lparr>awaiting := n, timer_active := False, promise := Resolved body\<rparr>"
  by (cases body) (simp_all add: resume_def stop_with_def polling_def)

lemma run_keeps_polling:
  "keeps_polling ex (awaiting s) sched \<Longrightarrow> polling s \<Longrightarrow>
   run ep rb ex sched s =
     s\<lparr>awaiting := awaiting s + fires sched - answers sched,
       trace := trace s @ concat (map (polling_events ep rb) sched)\<rparr>"
proof (induction sched arbitrary: s)
  case Nil
  then show ?case by (simp add: fires_def answers_def)
next
  case (Cons st sched)
  show ?case
  proof (cases st)
    case (Fire c t)
    with Cons.prems have r: "reaches_post ex c t"
      and k: "keeps_polling ex (Suc (awaiting s)) sched"
      by simp_all
    let ?s = "s\<lparr>trace := trace s @ [TokenPost ep rb], awaiting := Suc (awaiting s)\<rparr>"
    have "polling ?s" using Cons.prems(2) by (simp add: polling_def)
    moreover have "keeps_polling ex (awaiting ?s) sched" using k by simp
    ultimately have "run ep rb ex sched ?s =
        ?s\<lparr>awaiting := awaiting ?s + fires sched - answers sched,
           trace := trace ?s @ concat (map (polling_events ep rb) sched)\<rparr>"
      by (rule Cons.IH [rotated])
    then show ?thesis
      using Fire turn_post [OF r Cons.prems(2), of ep rb]
      by (simp add: fires_def answers_def)
  next
    case (Answer a)
    with Cons.prems obtain n where n: "awaiting s = Suc n"
      and p: "is_pending_answer a" and k: "keeps_polling ex n sched"
      by (cases "awaiting s") simp_all
    let ?s = "s\<lparr>awaiting := n, trace := trace s @ [LogInfo (answer_description a)]\<rparr>"
    have "polling ?s" using Cons.prems(2) by (simp add: polling_def)
    moreover have "keeps_polling ex (awaiting ?s) sched" using k by simp
    ultimately have "run ep rb ex sched ?s =
        ?s\<lparr>awaiting := awaiting ?s + fires sched - answers sched,
           trace := trace ?s @ concat (map (polling_events ep rb) sched)\<rparr>"
      by (rule Cons.IH [rotated])
    then show ?thesis
      using Answer turn_pending [OF p n, of ep rb ex] n
      by (simp add: fires_def answers_def)
  qed
qed

lemma turn_stopped:
  assumes s: "stopped s"
  shows "stopped (turn ep rb ex st s)
   \<and> promise (turn ep rb ex st s) = promise s
   \<and> trace (turn ep rb ex st s) = trace s @ late_events (awaiting s) [st]
   \<and> awaiting (turn ep rb ex st s) = awaiting s - (if is_fire st then 0 else 1)"
proof (cases st)
  case (Fire c t)
  with s show ?thesis by (simp add: stopped_def)
next
  case (Answer a)
  from s have "promise s \<noteq> Pending" by (simp add: stopped_def)
  then have settle: "settle (promise s) p = promise s" for p
    by (cases "promise s") simp_all
  show ?thesis
  proof (cases "awaiting s")
    case 0
    with s Answer show ?thesis by simp
  next
    case (Suc n)
    show ?thesis
    proof (cases a)
      case (Inl e)
      with s Answer Suc settle show ?thesis
        by (simp add: resume_def stop_with_def stopped_def)
    next
      case (Inr body)
      with s Answer Suc settle show ?thesis
        by (cases body) (simp_all add: resume_def stop_with_def emit_def stopped_def)
    qed
  qed
qed

lemma late_events_Cons:
  "late_events n (st # sched) =
     late_events n [st] @ late_events (n - (if is_fire st then 0 else 1)) sched"
  by (cases st; cases n) simp_all

lemma run_stopped:
  "stopped s \<Longrightarrow>
   stopped (run ep rb ex sched s)
   \<and> promise (run ep rb ex sched s) = promise s
   \<and> trace (run ep rb ex sched s) = trace s @ late_events (awaiting s) sched"
proof (induction sched arbitrary: s)
  case Nil
  then show ?case by simp
next
  case (Cons st sched)
  note t = turn_stopped [OF Cons.prems, of ep rb ex st]
  from t have "stopped (turn ep rb ex st s)" by blast
  from Cons.IH [OF this] t show ?case
    by (simp add: late_events_Cons [of "awaiting s" st sched])
qed

lemma posts_append: "posts (xs @ ys) = posts xs + posts ys"
  by (simp add: posts_def)

lemma posts_polling_events: "posts (concat (map (polling_events ep rb) sched)) = fires sched"
proof (induction sched)
  case Nil
  then show ?case by (simp add: posts_def fires_def)
next
  case (Cons st sched)
  then show ?case by (cases st) (simp_all add: posts_def fires_def)
qed

lemma posts_late_events: "posts (late_events n sched) = 0"
proof (induction n sched rule: late_events.induct)
  case (4 n a sched)
  then show ?case by (simp add: posts_def)
qed (simp_all add: posts_def)

lemma polling_start_polling: "polling (polling_start d)"
  by (simp add: polling_def polling_start_def)

lemma flow_keeps_polling:
  assumes "keeps_polling (deviceCodeExpirationTime now0 r) 0 sched"
  shows "acquireTokenWithDeviceCode x config auth request r now0 sched =
         \<lparr>promise = Pending, timer_active = True,
          awaiting = fires sched - answers sched,
          trace = SetInterval (pollingIntervalMilli r)
            # concat (map (polling_events (tokenEndpoint auth)
                            (createTokenRequestBody x config request r)) sched)\<rparr>"
  using run_keeps_polling [of "deviceCodeExpirationTime now0 r"
      "polling_start (pollingIntervalMilli r)" sched "tokenEndpoint auth"
      "createTokenRequestBody x config request r"] assms
  by (simp add: acquireTokenWithDeviceCode_def Let_def polling_start_def polling_def)

lemma flow_append:
  "acquireTokenWithDeviceCode x config auth request r now0 (sched @ later) =
     run (tokenEndpoint auth) (createTokenRequestBody x config request r)
       (deviceCodeExpirationTime now0 r) later
       (acquireTokenWithDeviceCode x config auth request r now0 sched)"
  by (simp add: acquireTokenWithDeviceCode_def Let_def run_append)

lemma flow_answer:
  assumes "0 < awaiting (acquireTokenWithDeviceCode x config auth request r now0 sched)"
    and "\<not> is_pending_body body"
  shows "promise (acquireTokenWithDeviceCode x config auth request r now0
                    (sched @ [Answer (Inr body)])) =
           settle (promise (acquireTokenWithDeviceCode x config auth request r now0 sched))
             (Resolved body)
       \<and> \<not> timer_active (acquireTokenWithDeviceCode x config auth request r now0
                    (sched @ [Answer (Inr body)]))"
proof -
  from assms(1) obtain n where
    "awaiting (acquireTokenWithDeviceCode x config auth request r now0 sched) = Suc n"
    by (cases "awaiting (acquireTokenWithDeviceCode x config auth request r now0 sched)")
       simp_all
  with assms(2) show ?thesis
    by (cases body) (simp_all add: flow_append resume_def stop_with_def)
qed

lemma flow_stop:
  assumes pre: "keeps_polling (deviceCodeExpirationTime now0 r) 0 pre"
    and stop: "\<And>s. polling s \<Longrightarrow> awaiting s = fires pre - answers pre \<Longrightarrow>
      turn (tokenEndpoint auth) (createTokenRequestBody x config request r)
        (deviceCodeExpirationTime now0 r) st s =
      s\<lparr>trace := trace s @ evs, awaiting := m, timer_active := False, promise := P\<rparr>"
    and P: "P \<noteq> Pending"
  shows "promise (acquireTokenWithDeviceCode x config auth request r now0 (pre @ st # later)) = P
       \<and> \<not> timer_active
             (acquireTokenWithDeviceCode x config auth request r now0 (pre @ st # later))
       \<and> trace (acquireTokenWithDeviceCode x config auth request r now0 (pre @ st # later)) =
           SetInterval (pollingIntervalMilli r)
             # concat (map (polling_events (tokenEndpoint auth)
                             (createTokenRequestBody x config request r)) pre)
             @ evs @ late_events m later"
proof -
  let ?ep = "tokenEndpoint auth" and ?rb = "createTokenRequestBody x config request r"
  let ?ex = "deviceCodeExpirationTime now0 r" and ?d = "pollingIntervalMilli r"
  let ?s = "\<lparr>promise = Pending, timer_active = True, awaiting = fires pre - answers pre,
             trace = SetInterval ?d # concat (map (polling_events ?ep ?rb) pre)\<rparr>"
  let ?t = "\<lparr>promise = P, timer_active = False, awaiting = m,
             trace = SetInterval ?d # concat (map (polling_events ?ep ?rb) pre) @ evs\<rparr>"
  have "polling ?s" "awaiting ?s = fires pre - answers pre"
    by (simp_all add: polling_def)
  then have "turn ?ep ?rb ?ex st ?s = ?t"
    by (simp add: stop)
  moreover have "acquireTokenWithDeviceCode x config auth request r now0 (pre @ st # later) =
      run ?ep ?rb ?ex later (turn ?ep ?rb ?ex st ?s)"
    using flow_keeps_polling [OF pre, of x config auth request]
    by (simp add: acquireTokenWithDeviceCode_def Let_def run_append)
  ultimately have run: "acquireTokenWithDeviceCode x config auth request r now0
      (pre @ st # later) = run ?ep ?rb ?ex later ?t"
    by simp
  have "stopped ?t" using P by (simp add: stopped_def)
  from run_stopped [OF this, of ?ep ?rb ?ex later] run show ?thesis
    by (simp add: stopped_def)
qed

lemma posts_flow:
  "posts (SetInterval d # concat (map (polling_events ep rb) pre) @ evs @ late_events m later) =
     fires pre + posts evs"
proof -
  have "posts ([SetInterval d] @ concat (map (polling_events ep rb) pre) @ evs
          @ late_events m later) =
        posts [SetInterval d] + (posts (concat (map (polling_events ep rb) pre))
          + (posts evs + posts (late_events m later)))"
    by (simp only: posts_append)
  then show ?thesis
    by (simp add: posts_polling_events posts_late_events) (simp add: posts_def)
qed

lemmas sample_defs =
  sample_world_def incomplete_server_response_def sample_externals_def sample_config_def
  sample_authority_def sample_request_def sample_server_response_def sample_response_def
  pending_body_def declined_body_def token_body_def pending_answer_def

lemma acquireToken_polls:
  assumes "createAuthority_result w = Inr auth"
    and "executeGetRequestToDeviceCodeEndpoint (get_result w) = Inr r"
    and "deviceCodeCallback request r = None"
  shows "acquireToken x config w request =
    (ResolveAuthority (authority request) # DeviceCodeGet (createDeviceCodeUrl x config auth request)
       # Callback r
       # trace (acquireTokenWithDeviceCode x config auth request r (start_now w) (schedule w)),
     then_stringify
       (promise (acquireTokenWithDeviceCode x config auth request r (start_now w) (schedule w))))"
  using assms by (simp add: acquireToken_def getDeviceCode_def Let_def)

text \<open>
  C2. An answer whose body carries the error code \<^verbatim>\<open>authorization_pending\<close> leaves the
  flow polling: as long as every firing so far has sent its POST and every answer so far
  was such an answer, in whatever order firings and answers came, the promise is pending
  (also the one \<^verbatim>\<open>acquireToken\<close> awaits), the timer is still set, every firing has sent
  one POST, and each answer was only logged at the informational level.
\<close>

theorem authorization_pending_keeps_polling:
  assumes "keeps_polling (deviceCodeExpirationTime now0 r) 0 sched"
  shows "promise (acquireTokenWithDeviceCode x config auth request r now0 sched) = Pending
       \<and> timer_active (acquireTokenWithDeviceCode x config auth request r now0 sched)
       \<and> then_stringify (promise (acquireTokenWithDeviceCode x config auth request r now0 sched))
           = Pending
       \<and> trace (acquireTokenWithDeviceCode x config auth request r now0 sched) =
           SetInterval (pollingIntervalMilli r)
             # concat (map (polling_events (tokenEndpoint auth)
                             (createTokenRequestBody x config request r)) sched)
       \<and> posts (trace (acquireTokenWithDeviceCode x config auth request r now0 sched))
           = fires sched"
proof -
  let ?ep = "tokenEndpoint auth" and ?rb = "createTokenRequestBody x config request r"
  let ?d = "pollingIntervalMilli r"
  note run = flow_keeps_polling [OF assms, of x config auth request]
  have "posts (SetInterval ?d # concat (map (polling_events ?ep ?rb) sched) @ [] @
          late_events 0 []) = fires sched + posts []"
    by (rule posts_flow)
  then have "posts (SetInterval ?d # concat (map (polling_events ?ep ?rb) sched)) = fires sched"
    by (simp add: posts_def)
  with run show ?thesis by simp
qed

theorem authorization_pending_keeps_polling_witness:
  "promise (acquireTokenWithDeviceCode sample_externals sample_config sample_authority
      sample_request sample_response 100
      [Fire False 105, Fire False 110, Answer pending_answer, Answer pending_answer]) = Pending
   \<and> posts (trace (acquireTokenWithDeviceCode sample_externals sample_config sample_authority
      sample_request sample_response 100
      [Fire False 105, Fire False 110, Answer pending_answer, Answer pending_answer])) = 2"
proof -
  have h: "keeps_polling (deviceCodeExpirationTime 100 sample_response) 0
             [Fire False 105, Fire False 110, Answer pending_answer, Answer pending_answer]"
    by (simp add: reaches_post_def deviceCodeExpirationTime_def
        AUTHORIZATION_PENDING_def sample_defs)
  note r = authorization_pending_keeps_polling
         [OF h, where x = sample_externals and config = sample_config
            and auth = sample_authority and request = sample_request]
  from r have "posts (trace (acquireTokenWithDeviceCode sample_externals sample_config
      sample_authority sample_request sample_response 100
      [Fire False 105, Fire False 110, Answer pending_answer, Answer pending_answer])) =
      fires [Fire False 105, Fire False 110, Answer pending_answer, Answer pending_answer]"
    by blast
  then have "posts (trace (acquireTokenWithDeviceCode sample_externals sample_config
      sample_authority sample_request sample_response 100
      [Fire False 105, Fire False 110, Answer pending_answer, Answer pending_answer])) = 2"
    by (simp add: fires_def)
  with r show ?thesis by blast
qed

subsection \<open>Cancellation and expiry\<close>

text \<open>
  C3. When the cancellation flag is set at a firing that finds the flow polling, the flow
  ends there: the promise is rejected with \<^verbatim>\<open>DeviceCodeCancelledError\<close>, the timer is
  cleared, and neither this firing nor a later one sends a POST (the POSTs are those of the
  firings before). Nothing is assumed about the clock at that firing: the flag is read
  first, so cancellation also wins over an expired device code. Nothing is assumed about
  what happens later either: answers to the POSTs that are still outstanding are at most
  logged.
\<close>

theorem cancellation_wins:
  assumes "keeps_polling (deviceCodeExpirationTime now0 r) 0 pre"
  shows "let s = acquireTokenWithDeviceCode x config auth request r now0
                   (pre @ Fire True t # later)
         in promise s = Rejected DeviceCodeCancelledError
          \<and> then_stringify (promise s) = Rejected DeviceCodeCancelledError
          \<and> \<not> timer_active s
          \<and> trace s = SetInterval (pollingIntervalMilli r)
               # concat (map (polling_events (tokenEndpoint auth)
                               (createTokenRequestBody x config request r)) pre)
               @ [LogErrorCancelled] @ late_events (fires pre - answers pre) later
          \<and> posts (trace s) = fires pre"
proof -
  note f = flow_stop [OF assms, where st = "Fire True t" and evs = "[LogErrorCancelled]"
      and m = "fires pre - answers pre" and P = "Rejected DeviceCodeCancelledError"
      and x = x and config = config and auth = auth and request = request and later = later]
  have "promise (acquireTokenWithDeviceCode x config auth request r now0
           (pre @ Fire True t # later)) = Rejected DeviceCodeCancelledError
       \<and> \<not> timer_active
             (acquireTokenWithDeviceCode x config auth request r now0 (pre @ Fire True t # later))
       \<and> trace (acquireTokenWithDeviceCode x config auth request r now0
             (pre @ Fire True t # later)) =
           SetInterval (pollingIntervalMilli r)
             # concat (map (polling_events (tokenEndpoint auth)
                             (createTokenRequestBody x config request r)) pre)
             @ [LogErrorCancelled] @ late_events (fires pre - answers pre) later"
    by (rule f) (simp_all add: fire_def stop_with_def emit_def polling_def)
  moreover have "posts [LogErrorCancelled] = 0"
    by (simp add: posts_def)
  ultimately show ?thesis
    using posts_flow [of "pollingIntervalMilli r" "tokenEndpoint auth"
        "createTokenRequestBody x config request r" pre "[LogErrorCancelled]"
        "fires pre - answers pre" later]
    by (simp add: Let_def)
qed

theorem cancellation_wins_witness:
  "promise (acquireTokenWithDeviceCode sample_externals sample_config sample_authority
      sample_request sample_response 100
      ([Fire False 105] @ Fire True 200 # [Answer (Inr (Some token_body)), Fire False 205]))
     = Rejected DeviceCodeCancelledError
   \<and> posts (trace (acquireTokenWithDeviceCode sample_externals sample_config sample_authority
      sample_request sample_response 100
      ([Fire False 105] @ Fire True 200 # [Answer (Inr (Some token_body)), Fire False 205])))
     = 1"
proof -
  have h: "keeps_polling (deviceCodeExpirationTime 100 sample_response) 0 [Fire False 105]"
    by (simp add: reaches_post_def deviceCodeExpirationTime_def sample_defs)
  note r = cancellation_wins
         [OF h, where x = sample_externals and config = sample_config
            and auth = sample_authority and request = sample_request and t = 200
            and later = "[Answer (Inr (Some token_body)), Fire False 205]", unfolded Let_def]
  from r have "posts (trace (acquireTokenWithDeviceCode sample_externals sample_config
      sample_authority sample_request sample_response 100
      ([Fire False 105] @ Fire True 200 # [Answer (Inr (Some token_body)), Fire False 205])))
      = fires [Fire False 105]"
    by blast
  then have "posts (trace (acquireTokenWithDeviceCode sample_externals sample_config
      sample_authority sample_request sample_response 100
      ([Fire False 105] @ Fire True 200 # [Answer (Inr (Some token_body)), Fire False 205])))
      = 1"
    by (simp add: fires_def)
  with r show ?thesis by blast
qed

text \<open>
  C4. When the flag is not set and the clock reading of a firing that finds the flow
  polling exceeds \<^verbatim>\<open>deviceCodeExpirationTime\<close>, which is the reading of line 126 plus
  \<^verbatim>\<open>expiresIn\<close>, the flow ends there: the promise is rejected with
  \<^verbatim>\<open>DeviceCodeExpiredError\<close>, the timer is cleared, and this firing sends no POST.
\<close>

theorem expiry_stops_before_post:
  assumes "keeps_polling (deviceCodeExpirationTime now0 r) 0 pre"
    and "expiresIn r = Some n"
    and "now0 + n < t"
  shows "let s = acquireTokenWithDeviceCode x config auth request r now0
                   (pre @ Fire False t # later)
         in deviceCodeExpirationTime now0 r = Num (now0 + n)
          \<and> promise s = Rejected DeviceCodeExpiredError
          \<and> then_stringify (promise s) = Rejected DeviceCodeExpiredError
          \<and> \<not> timer_active s
          \<and> trace s = SetInterval (pollingIntervalMilli r)
               # concat (map (polling_events (tokenEndpoint auth)
                               (createTokenRequestBody x config request r)) pre)
               @ [LogErrorExpired (Num (now0 + n))] @ late_events (fires pre - answers pre) later
          \<and> posts (trace s) = fires pre"
proof -
  have e: "deviceCodeExpirationTime now0 r = Num (now0 + n)"
    using assms(2) by (simp add: deviceCodeExpirationTime_def)
  note f = flow_stop [OF assms(1), where st = "Fire False t"
      and evs = "[LogErrorExpired (Num (now0 + n))]"
      and m = "fires pre - answers pre" and P = "Rejected DeviceCodeExpiredError"
      and x = x and config = config and auth = auth and request = request and later = later]
  have "promise (acquireTokenWithDeviceCode x config auth request r now0
           (pre @ Fire False t # later)) = Rejected DeviceCodeExpiredError
       \<and> \<not> timer_active
             (acquireTokenWithDeviceCode x config auth request r now0 (pre @ Fire False t # later))
       \<and> trace (acquireTokenWithDeviceCode x config auth request r now0
             (pre @ Fire False t # later)) =
           SetInterval (pollingIntervalMilli r)
             # concat (map (polling_events (tokenEndpoint auth)
                             (createTokenRequestBody x config request r)) pre)
             @ [LogErrorExpired (Num (now0 + n))] @ late_events (fires pre - answers pre) later"
    using assms(3) by (intro f) (simp_all add: fire_def stop_with_def emit_def polling_def e)
  moreover have "posts [LogErrorExpired (Num (now0 + n))] = 0"
    by (simp add: posts_def)
  ultimately show ?thesis
    using posts_flow [of "pollingIntervalMilli r" "tokenEndpoint auth"
        "createTokenRequestBody x config request r" pre "[LogErrorExpired (Num (now0 + n))]"
        "fires pre - answers pre" later]
    by (simp add: Let_def e)
qed

theorem expiry_stops_before_post_witness:
  "promise (acquireTokenWithDeviceCode sample_externals sample_config sample_authority
      sample_request sample_response 100
      ([Fire False 105] @ Fire False 117 # [Answer (Inr (Some token_body))]))
     = Rejected DeviceCodeExpiredError
   \<and> posts (trace (acquireTokenWithDeviceCode sample_externals sample_config sample_authority
      sample_request sample_response 100
      ([Fire False 105] @ Fire False 117 # [Answer (Inr (Some token_body))])))
     = 1"
proof -
  have h: "keeps_polling (deviceCodeExpirationTime 100 sample_response) 0 [Fire False 105]"
    by (simp add: reaches_post_def deviceCodeExpirationTime_def sample_defs)
  have e: "expiresIn sample_response = Some 16"
    by (simp add: sample_response_def)
  have l: "(100::int) + 16 < 117"
    by simp
  note r = expiry_stops_before_post
         [OF h e l, where x = sample_externals and config = sample_config
            and auth = sample_authority and request = sample_request
            and later = "[Answer (Inr (Some token_body))]", unfolded Let_def]
  from r have "posts (trace (acquireTokenWithDeviceCode sample_externals sample_config
      sample_authority sample_request sample_response 100
      ([Fire False 105] @ Fire False 117 # [Answer (Inr (Some token_body))])))
      = fires [Fire False 105]"
    by blast
  then have "posts (trace (acquireTokenWithDeviceCode sample_externals sample_config
      sample_authority sample_request sample_response 100
      ([Fire False 105] @ Fire False 117 # [Answer (Inr (Some token_body))])))
      = 1"
    by (simp add: fires_def)
  with r show ?thesis by blast
qed

subsection \<open>Answers that end the flow\<close>

lemma flow_final:
  assumes "keeps_polling (deviceCodeExpirationTime now0 r) 0 pre"
    and "answers pre < fires pre"
    and "\<not> is_pending_body body"
  shows "promise (acquireTokenWithDeviceCode x config auth request r now0
           (pre @ Answer (Inr body) # later)) = Resolved body
       \<and> \<not> timer_active (acquireTokenWithDeviceCode x config auth request r now0
           (pre @ Answer (Inr body) # later))
       \<and> posts (trace (acquireTokenWithDeviceCode x config auth request r now0
           (pre @ Answer (Inr body) # later))) = fires pre"
proof -
  from assms(2) obtain m where m: "fires pre - answers pre = Suc m"
    by (cases "fires pre - answers pre") simp_all
  note f = flow_stop [OF assms(1), where st = "Answer (Inr body)" and evs = "[]"
      and m = m and P = "Resolved body"
      and x = x and config = config and auth = auth and request = request and later = later]
  have "promise (acquireTokenWithDeviceCode x config auth request r now0
           (pre @ Answer (Inr body) # later)) = Resolved body
       \<and> \<not> timer_active (acquireTokenWithDeviceCode x config auth request r now0
           (pre @ Answer (Inr body) # later))
       \<and> trace (acquireTokenWithDeviceCode x config auth request r now0
           (pre @ Answer (Inr body) # later)) =
           SetInterval (pollingIntervalMilli r)
             # concat (map (polling_events (tokenEndpoint auth)
                             (createTokenRequestBody x config request r)) pre)
             @ [] @ late_events m later"
    using assms(3) m
    by (intro f; cases body) (simp_all add: resume_def stop_with_def polling_def)
  moreover have "posts [] = 0"
    by (simp add: posts_def)
  ultimately show ?thesis
    using posts_flow [of "pollingIntervalMilli r" "tokenEndpoint auth"
        "createTokenRequestBody x config request r" pre "[]" m later]
    by simp
qed

lemma acquireToken_final:
  assumes "createAuthority_result w = Inr auth"
    and "executeGetRequestToDeviceCodeEndpoint (get_result w) = Inr r"
    and "deviceCodeCallback request r = None"
    and "schedule w = pre @ Answer (Inr body) # later"
    and "keeps_polling (deviceCodeExpirationTime (start_now w) r) 0 pre"
    and "answers pre < fires pre"
    and "\<not> is_pending_body body"
  shows "let s = acquireTokenWithDeviceCode x config auth request r (start_now w) (schedule w)
         in promise s = Resolved body
          \<and> \<not> timer_active s
          \<and> posts (trace s) = fires pre
          \<and> snd (acquireToken x config w request) = Resolved (JSON_stringify body)"
  using flow_final [OF assms(5-7), of x config auth request later] assms(4)
  by (simp add: Let_def acquireToken_polls [OF assms(1-3)])

text \<open>
  C1, as the code has it. An answer that arrives while the flow is polling and whose body
  carries an error code other than \<^verbatim>\<open>authorization_pending\<close> ends the flow: the timer is
  cleared, no later firing sends a POST (the POSTs are those of the firings before, of
  which some may still be outstanding), and the promise is resolved with the body of the
  answer as it is, whatever arrives later. \<^verbatim>\<open>acquireToken\<close> resolves with the serialization
  of that body: the server's error payload reaches the caller as a result, not as a
  rejection. And in whatever state such an answer to an outstanding POST arrives, the
  timer is cleared and the promise is resolved with its body unless an earlier firing or
  answer has settled the promise already.
\<close>

theorem server_error_is_resolved:
  assumes "createAuthority_result w = Inr auth"
    and "executeGetRequestToDeviceCodeEndpoint (get_result w) = Inr r"
    and "deviceCodeCallback request r = None"
    and "schedule w = pre @ Answer (Inr (Some b)) # later"
    and "keeps_polling (deviceCodeExpirationTime (start_now w) r) 0 pre"
    and "answers pre < fires pre"
    and "error b = Some code"
    and "code \<noteq> AUTHORIZATION_PENDING"
  shows "let s = acquireTokenWithDeviceCode x config auth request r (start_now w) (schedule w)
         in promise s = Resolved (Some b)
          \<and> \<not> timer_active s
          \<and> posts (trace s) = fires pre
          \<and> snd (acquireToken x config w request) = Resolved (JSON_stringify (Some b))
          \<and> (0 < awaiting (acquireTokenWithDeviceCode x config auth request r now0 sched)
               \<longrightarrow>
               promise (acquireTokenWithDeviceCode x config auth request r now0
                          (sched @ [Answer (Inr (Some b))])) =
                 settle (promise (acquireTokenWithDeviceCode x config auth request r now0 sched))
                   (Resolved (Some b))
               \<and> \<not> timer_active (acquireTokenWithDeviceCode x config auth request r now0
                          (sched @ [Answer (Inr (Some b))])))"
proof -
  have n: "\<not> is_pending_body (Some b)"
    using assms(7,8) by simp
  from acquireToken_final [OF assms(1-6) n, of x config]
    flow_answer [OF _ n, of x config auth request r now0 sched]
  show ?thesis
    by (simp add: Let_def)
qed

theorem server_error_is_resolved_witness:
  "snd (acquireToken sample_externals sample_config
         (sample_world [Fire False 105, Fire False 110, Answer pending_answer,
            Answer (Inr (Some declined_body)), Answer (Inr (Some token_body))])
         sample_request)
   = Resolved (JSON_stringify (Some declined_body))"
proof -
  let ?w = "sample_world [Fire False 105, Fire False 110, Answer pending_answer,
            Answer (Inr (Some declined_body)), Answer (Inr (Some token_body))]"
  have a: "createAuthority_result ?w = Inr sample_authority"
    by (simp add: sample_world_def)
  have g: "executeGetRequestToDeviceCodeEndpoint (get_result ?w) = Inr sample_response"
    by (simp add: executeGetRequestToDeviceCodeEndpoint_def sample_world_def
        sample_server_response_def sample_response_def)
  have c: "deviceCodeCallback sample_request sample_response = None"
    by (simp add: sample_request_def)
  have t: "schedule ?w = [Fire False 105, Fire False 110, Answer pending_answer]
             @ Answer (Inr (Some declined_body)) # [Answer (Inr (Some token_body))]"
    by (simp add: sample_world_def)
  have h: "keeps_polling (deviceCodeExpirationTime (start_now ?w) sample_response) 0
             [Fire False 105, Fire False 110, Answer pending_answer]"
    by (simp add: reaches_post_def deviceCodeExpirationTime_def
        AUTHORIZATION_PENDING_def sample_defs)
  have o: "answers [Fire False 105, Fire False 110, Answer pending_answer]
             < fires [Fire False 105, Fire False 110, Answer pending_answer]"
    by (simp add: answers_def fires_def)
  have e: "error declined_body = Some ''authorization_declined''"
    by (simp add: declined_body_def)
  have n: "''authorization_declined'' \<noteq> AUTHORIZATION_PENDING"
    by (simp add: AUTHORIZATION_PENDING_def)
  from server_error_is_resolved [OF a g c t h o e n, unfolded Let_def]
  show ?thesis by blast
qed

text \<open>
  The token endpoint answers the first POST with the error \<^verbatim>\<open>authorization_declined\<close>:
  the promise of the polling engine and the promise of \<^verbatim>\<open>acquireToken\<close> are resolved, not
  rejected.
\<close>

theorem server_error_is_not_a_failure:
  "error declined_body = Some ''authorization_declined''
   \<and> snd (acquireToken sample_externals sample_config
         (sample_world [Fire False 105, Answer (Inr (Some declined_body))]) sample_request)
     = Resolved (JSON_stringify (Some declined_body))
   \<and> promise (acquireTokenWithDeviceCode sample_externals sample_config sample_authority
         sample_request sample_response 100 [Fire False 105, Answer (Inr (Some declined_body))])
     = Resolved (Some declined_body)"
  by (simp add: acquireToken_def getDeviceCode_def executeGetRequestToDeviceCodeEndpoint_def
      acquireTokenWithDeviceCode_def fire_def resume_def stop_with_def emit_def
      polling_start_def deviceCodeExpirationTime_def AUTHORIZATION_PENDING_def Let_def
      sample_defs)



subsection \<open>The order of the events of acquireToken\<close>

lemma turn_events:
  "\<exists>evs. trace (turn ep rb ex st s) = trace s @ evs \<and> list_all is_polling_event evs"
proof (cases st)
  case (Fire c t)
  then show ?thesis
    by (simp add: fire_def stop_with_def emit_def)
next
  case (Answer a)
  then show ?thesis
    by (cases "awaiting s")
       (simp_all add: resume_def stop_with_def emit_def split: sum.splits option.splits)
qed

lemma run_events:
  "\<exists>evs. trace (run ep rb ex sched s) = trace s @ evs \<and> list_all is_polling_event evs"
proof (induction sched arbitrary: s)
  case Nil
  then show ?case by simp
next
  case (Cons st sched)
  obtain evs where 1: "trace (turn ep rb ex st s) = trace s @ evs"
    and 2: "list_all is_polling_event evs"
    using turn_events by blast
  obtain evs' where 3: "trace (run ep rb ex sched (turn ep rb ex st s)) =
      trace (turn ep rb ex st s) @ evs'" and 4: "list_all is_polling_event evs'"
    using Cons.IH by blast
  have "trace (run ep rb ex (st # sched) s) = trace s @ (evs @ evs')"
    using 1 3 by simp
  moreover have "list_all is_polling_event (evs @ evs')"
    using 2 4 by simp
  ultimately show ?case by blast
qed

lemma flow_events:
  "list_all is_polling_event
     (trace (acquireTokenWithDeviceCode x config auth request r now0 sched))"
proof -
  obtain evs where "trace (acquireTokenWithDeviceCode x config auth request r now0 sched) =
      trace (polling_start (pollingIntervalMilli r)) @ evs" and "list_all is_polling_event evs"
    unfolding acquireTokenWithDeviceCode_def Let_def using run_events by blast
  then show ?thesis
    by (simp add: polling_start_def)
qed

lemma polling_event_callback: "list_all is_polling_event evs \<Longrightarrow> filter is_callback evs = []"
proof (induction evs)
  case Nil
  then show ?case by simp
next
  case (Cons e evs)
  then show ?case by (cases e) simp_all
qed

text \<open>
  C5. When the authority is resolved and the device code endpoint has answered with a
  body, the events of \<^verbatim>\<open>acquireToken\<close> begin with the resolution of the authority, the GET
  to the device code endpoint and the call of \<^verbatim>\<open>request.deviceCodeCallback\<close> with the
  response built from that answer, in this order; everything after the call is an event of
  the polling engine. So the callback is called exactly once, after the GET has returned
  and before the timer is set up and any POST is sent.
\<close>

theorem callback_once_before_polling:
  assumes "createAuthority_result w = Inr auth"
    and "executeGetRequestToDeviceCodeEndpoint (get_result w) = Inr r"
  shows "fst (acquireToken x config w request) =
           ResolveAuthority (authority request)
             # DeviceCodeGet (createDeviceCodeUrl x config auth request)
             # Callback r
             # drop 3 (fst (acquireToken x config w request))
       \<and> list_all is_polling_event (drop 3 (fst (acquireToken x config w request)))
       \<and> length (filter is_callback (fst (acquireToken x config w request))) = 1"
proof (cases "deviceCodeCallback request r")
  case None
  let ?s = "acquireTokenWithDeviceCode x config auth request r (start_now w) (schedule w)"
  have t: "fst (acquireToken x config w request) =
      ResolveAuthority (authority request)
        # DeviceCodeGet (createDeviceCodeUrl x config auth request) # Callback r # trace ?s"
    by (simp add: acquireToken_polls [OF assms None])
  have "filter is_callback (trace ?s) = []"
    by (rule polling_event_callback [OF flow_events])
  with t None show ?thesis
    by (simp add: flow_events)
next
  case (Some e)
  with assms have "fst (acquireToken x config w request) =
      [ResolveAuthority (authority request),
       DeviceCodeGet (createDeviceCodeUrl x config auth request), Callback r]"
    by (simp add: acquireToken_def getDeviceCode_def Let_def)
  then show ?thesis by simp
qed

theorem callback_once_before_polling_witness:
  "take 3 (fst (acquireToken sample_externals sample_config
       (sample_world [Fire False 105, Answer pending_answer, Fire False 110,
          Answer (Inr (Some token_body))])
       sample_request))
   = [ResolveAuthority None,
      DeviceCodeGet (createDeviceCodeUrl sample_externals sample_config sample_authority
        sample_request),
      Callback sample_response]
   \<and> length (filter is_callback (fst (acquireToken sample_externals sample_config
       (sample_world [Fire False 105, Answer pending_answer, Fire False 110,
          Answer (Inr (Some token_body))])
       sample_request))) = 1"
proof -
  let ?w = "sample_world [Fire False 105, Answer pending_answer, Fire False 110,
          Answer (Inr (Some token_body))]"
  have a: "createAuthority_result ?w = Inr sample_authority"
    by (simp add: sample_world_def)
  have g: "executeGetRequestToDeviceCodeEndpoint (get_result ?w) = Inr sample_response"
    by (simp add: executeGetRequestToDeviceCodeEndpoint_def sample_world_def
        sample_server_response_def sample_response_def)
  note r = callback_once_before_polling
    [OF a g, where x = sample_externals and config = sample_config and request = sample_request]
  have n: "authority sample_request = None"
    by (simp add: sample_request_def)
  from r have "fst (acquireToken sample_externals sample_config ?w sample_request) =
           ResolveAuthority (authority sample_request)
             # DeviceCodeGet (createDeviceCodeUrl sample_externals sample_config
                 sample_authority sample_request)
             # Callback sample_response
             # drop 3 (fst (acquireToken sample_externals sample_config ?w sample_request))"
    by blast
  then have "take 3 (fst (acquireToken sample_externals sample_config ?w sample_request)) =
           take 3 (ResolveAuthority (authority sample_request)
             # DeviceCodeGet (createDeviceCodeUrl sample_externals sample_config
                 sample_authority sample_request)
             # Callback sample_response
             # drop 3 (fst (acquireToken sample_externals sample_config ?w sample_request)))"
    by simp
  then have "take 3 (fst (acquireToken sample_externals sample_config ?w sample_request)) =
           [ResolveAuthority None,
            DeviceCodeGet (createDeviceCodeUrl sample_externals sample_config
                 sample_authority sample_request),
            Callback sample_response]"
    by (simp add: n)
  with r show ?thesis by blast
qed

subsection \<open>Answers that arrive late\<close>

text \<open>
  Two POSTs are outstanding. The answer that arrives first decides: the token is returned
  although the other POST is answered with an error; and a flow that was cancelled while
  its POST was outstanding stays cancelled when the answer arrives.
\<close>

lemma first_answer_decides:
  "snd (acquireToken sample_externals sample_config
         (sample_world [Fire False 105, Fire False 110, Answer (Inr (Some token_body)),
            Answer (Inr (Some declined_body))]) sample_request)
     = Resolved (JSON_stringify (Some token_body))
   \<and> posts (fst (acquireToken sample_externals sample_config
         (sample_world [Fire False 105, Fire False 110, Answer (Inr (Some token_body)),
            Answer (Inr (Some declined_body))]) sample_request)) = 2
   \<and> snd (acquireToken sample_externals sample_config
         (sample_world [Fire False 105, Fire True 110, Answer (Inr None)]) sample_request)
     = Rejected DeviceCodeCancelledError"
  by (simp add: acquireToken_def getDeviceCode_def executeGetRequestToDeviceCodeEndpoint_def
      acquireTokenWithDeviceCode_def fire_def resume_def stop_with_def emit_def
      polling_start_def deviceCodeExpirationTime_def AUTHORIZATION_PENDING_def Let_def
      posts_def sample_defs)

subsection \<open>Bounds on the number of POSTs\<close>

lemma turn_consistent: "consistent s \<Longrightarrow> consistent (turn ep rb ex st s)"
proof (cases st)
  case (Fire c t)
  assume "consistent s"
  with Fire show ?thesis
    by (simp add: consistent_def fire_def stop_with_def emit_def)
next
  case (Answer a)
  assume c: "consistent s"
  have settle: "settle (promise s) p \<noteq> Pending" if "p \<noteq> Pending" for p
    using that by (cases "promise s") simp_all
  from c Answer show ?thesis
    by (cases "awaiting s")
       (simp_all add: consistent_def resume_def stop_with_def emit_def settle
          split: sum.splits option.splits)
qed

lemma run_consistent: "consistent s \<Longrightarrow> consistent (run ep rb ex sched s)"
  by (induction sched arbitrary: s) (simp_all add: turn_consistent)

lemma flow_consistent:
  "consistent (acquireTokenWithDeviceCode x config auth request r now0 sched)"
  unfolding acquireTokenWithDeviceCode_def Let_def
  by (rule run_consistent) (simp add: consistent_def polling_start_def)

lemma turn_timer_cleared: "\<not> timer_active s \<Longrightarrow> \<not> timer_active (turn ep rb ex st s)"
  by (cases st; cases "awaiting s")
     (simp_all add: resume_def stop_with_def emit_def split: sum.splits option.splits)

lemma run_timer_cleared: "\<not> timer_active s \<Longrightarrow> \<not> timer_active (run ep rb ex sched s)"
  by (induction sched arbitrary: s) (simp_all add: turn_timer_cleared)

lemma turn_answer_posts: "posts (trace (turn ep rb ex (Answer a) s)) = posts (trace s)"
  by (cases "awaiting s")
     (simp_all add: resume_def stop_with_def emit_def posts_def split: sum.splits option.splits)

lemma turn_fire_posts:
  "posts (trace (turn ep rb ex (Fire c t) s)) =
     posts (trace s) + (if timer_active s \<and> reaches_post ex c t then 1 else 0)"
  by (simp add: fire_def stop_with_def emit_def posts_def reaches_post_def)

lemma turn_fire_late:
  "\<not> reaches_post ex c t \<Longrightarrow> \<not> timer_active (turn ep rb ex (Fire c t) s)"
  by (auto simp add: fire_def stop_with_def emit_def reaches_post_def)

lemma run_posts_bound:
  assumes "\<forall>k < length (fire_clocks sched).
             now0 + secs * (int (j + k) + 1) \<le> fire_clocks sched ! k"
    and "0 \<le> secs"
    and "e < now0 + secs * (int m + 1)"
  shows "posts (trace (run ep rb (Num e) sched s)) \<le> posts (trace s) + (m - j)"
  using assms(1)
proof (induction sched arbitrary: s j)
  case Nil
  then show ?case by simp
next
  case (Cons st sched)
  show ?case
  proof (cases st)
    case (Answer a)
    with Cons.prems have "\<forall>k < length (fire_clocks sched).
        now0 + secs * (int (j + k) + 1) \<le> fire_clocks sched ! k"
      by simp
    from Cons.IH [OF this, of "turn ep rb (Num e) st s"] Answer show ?thesis
      by (simp add: turn_answer_posts del: turn.simps)
  next
    case (Fire c t)
    have rest: "\<forall>k < length (fire_clocks sched).
        now0 + secs * (int (Suc j + k) + 1) \<le> fire_clocks sched ! k"
    proof (intro allI impI)
      fix k assume "k < length (fire_clocks sched)"
      then have "Suc k < length (fire_clocks (st # sched))"
        using Fire by simp
      with Cons.prems have "now0 + secs * (int (j + Suc k) + 1) \<le> fire_clocks (st # sched) ! Suc k"
        by blast
      then show "now0 + secs * (int (Suc j + k) + 1) \<le> fire_clocks sched ! k"
        using Fire by simp
    qed
    note ih = Cons.IH [OF rest, of "turn ep rb (Num e) st s"]
    from Cons.prems Fire have first: "now0 + secs * (int j + 1) \<le> t"
      by fastforce
    show ?thesis
    proof (cases "timer_active s \<and> reaches_post (Num e) c t")
      case True
      then have "t \<le> e" by (simp add: reaches_post_def)
      with first assms(3) have "secs * (int j + 1) < secs * (int m + 1)"
        by linarith
      with assms(2) have "int j + 1 < int m + 1"
        by (simp add: mult_less_cancel_left)
      then have "j < m" by simp
      moreover have "posts (trace (turn ep rb (Num e) st s)) = posts (trace s) + 1"
        using True Fire by (simp add: turn_fire_posts del: turn.simps)
      ultimately show ?thesis using ih Fire by (simp del: turn.simps)
    next
      case False
      then have "posts (trace (turn ep rb (Num e) st s)) = posts (trace s)"
        using Fire by (simp add: turn_fire_posts del: turn.simps)
      with ih Fire show ?thesis by (simp del: turn.simps)
    qed
  qed
qed

lemma run_stops:
  assumes "\<exists>t \<in> set (fire_clocks sched). e < t"
  shows "\<not> timer_active (run ep rb (Num e) sched s)"
  using assms
proof (induction sched arbitrary: s)
  case Nil
  then show ?case by simp
next
  case (Cons st sched)
  show ?case
  proof (cases st)
    case (Answer a)
    with Cons.prems have "\<exists>t \<in> set (fire_clocks sched). e < t" by simp
    from Cons.IH [OF this] show ?thesis by (simp del: turn.simps)
  next
    case (Fire c t)
    show ?thesis
    proof (cases "e < t")
      case True
      then have "\<not> reaches_post (Num e) c t" by (simp add: reaches_post_def)
      then have "\<not> timer_active (turn ep rb (Num e) (Fire c t) s)"
        by (rule turn_fire_late)
      then show ?thesis using Fire by (simp add: run_timer_cleared del: turn.simps)
    next
      case False
      with Cons.prems Fire have "\<exists>t \<in> set (fire_clocks sched). e < t" by simp
      from Cons.IH [OF this] show ?thesis by (simp del: turn.simps)
    qed
  qed
qed

lemma length_fire_clocks: "length (fire_clocks sched) = fires sched"
proof (induction sched)
  case Nil
  then show ?case by (simp add: fires_def)
next
  case (Cons st sched)
  then show ?case by (cases st) (simp_all add: fires_def)
qed

lemma fire_clocks_append: "fire_clocks (xs @ ys) = fire_clocks xs @ fire_clocks ys"
proof (induction xs)
  case Nil
  then show ?case by simp
next
  case (Cons st xs)
  then show ?case by (cases st) simp_all
qed

text \<open>
  C6. The device code response has an interval of 5 seconds and expires in 16 seconds, and
  the timer does not fire early: the clock reading of firing number \<open>k\<close> is at least \<open>5 * k\<close>
  seconds after the reading of line 126. Then the timer is set with a delay of 5000
  milliseconds and the flow sends at most 3 POSTs, however many firings there are and
  whenever the answers arrive; at the fourth firing at the latest the flow has ended; and
  when the flow is still polling after three firings and the flag is not set at the
  fourth, the flow ends there with \<^verbatim>\<open>DeviceCodeExpiredError\<close>, after exactly 3 POSTs.
\<close>

theorem at_most_three_polls:
  assumes "expiresIn r = Some 16"
    and "interval r = Some 5"
    and "on_schedule now0 5 (fire_clocks sched)"
  shows "let s = acquireTokenWithDeviceCode x config auth request r now0 sched
         in pollingIntervalMilli r = Num 5000
          \<and> posts (trace s) \<le> 3
          \<and> (4 \<le> fires sched \<longrightarrow> \<not> timer_active s \<and> promise s \<noteq> Pending)
          \<and> (sched = pre @ Fire False t # later
               \<and> fires pre = 3
               \<and> keeps_polling (deviceCodeExpirationTime now0 r) 0 pre
              \<longrightarrow> promise s = Rejected DeviceCodeExpiredError \<and> posts (trace s) = 3)"
proof -
  let ?ep = "tokenEndpoint auth" and ?rb = "createTokenRequestBody x config request r"
  let ?ex = "deviceCodeExpirationTime now0 r" and ?d = "pollingIntervalMilli r"
  let ?s = "acquireTokenWithDeviceCode x config auth request r now0 sched"
  have ex: "?ex = Num (now0 + 16)"
    using assms(1) by (simp add: deviceCodeExpirationTime_def)
  have d: "?d = Num 5000"
    using assms(2) by (simp add: pollingIntervalMilli_def)
  have run: "?s = run ?ep ?rb (Num (now0 + 16)) sched (polling_start ?d)"
    by (simp add: acquireTokenWithDeviceCode_def Let_def ex)
  have clocks: "\<forall>k < length (fire_clocks sched).
      now0 + 5 * (int (0 + k) + 1) \<le> fire_clocks sched ! k"
    using assms(3) by (simp add: on_schedule_def)
  have "posts (trace ?s) \<le> posts (trace (polling_start ?d)) + (3 - 0)"
    unfolding run by (rule run_posts_bound [OF clocks]) simp_all
  then have bound: "posts (trace ?s) \<le> 3"
    by (simp add: polling_start_def posts_def)
  have stop: "\<not> timer_active ?s \<and> promise ?s \<noteq> Pending" if "4 \<le> fires sched"
  proof -
    from that have 3: "3 < length (fire_clocks sched)"
      by (simp add: length_fire_clocks)
    with clocks have "now0 + 5 * (int (0 + 3) + 1) \<le> fire_clocks sched ! 3"
      by blast
    then have "now0 + 16 < fire_clocks sched ! 3" by simp
    moreover have "fire_clocks sched ! 3 \<in> set (fire_clocks sched)"
      using 3 by simp
    ultimately have "\<exists>t \<in> set (fire_clocks sched). now0 + 16 < t" by blast
    then have "\<not> timer_active ?s"
      unfolding run by (rule run_stops)
    with flow_consistent [of x config auth request r now0 sched] show ?thesis
      by (simp add: consistent_def)
  qed
  have expired: "promise ?s = Rejected DeviceCodeExpiredError \<and> posts (trace ?s) = 3"
    if sched: "sched = pre @ Fire False t # later" and three: "fires pre = 3"
      and pre: "keeps_polling ?ex 0 pre"
  proof -
    have "fire_clocks sched ! 3 = t"
      using three by (simp add: sched fire_clocks_append nth_append length_fire_clocks)
    moreover have "3 < length (fire_clocks sched)"
      using three by (simp add: sched fire_clocks_append length_fire_clocks)
    ultimately have "now0 + 5 * (int (0 + 3) + 1) \<le> t"
      using clocks by blast
    then have late: "js_gt (Num t) ?ex"
      by (simp add: ex)
    note f = flow_stop [OF pre, where st = "Fire False t"
      and evs = "[LogErrorExpired ?ex]"
      and m = "fires pre - answers pre" and P = "Rejected DeviceCodeExpiredError"
      and x = x and config = config and auth = auth and request = request and later = later]
    have "promise (acquireTokenWithDeviceCode x config auth request r now0
           (pre @ Fire False t # later)) = Rejected DeviceCodeExpiredError
       \<and> \<not> timer_active
             (acquireTokenWithDeviceCode x config auth request r now0 (pre @ Fire False t # later))
       \<and> trace (acquireTokenWithDeviceCode x config auth request r now0
             (pre @ Fire False t # later)) =
           SetInterval ?d # concat (map (polling_events ?ep ?rb) pre)
             @ [LogErrorExpired ?ex] @ late_events (fires pre - answers pre) later"
      using late by (intro f) (simp_all add: fire_def stop_with_def emit_def polling_def)
    moreover have "posts [LogErrorExpired ?ex] = 0"
      by (simp add: posts_def)
    ultimately show ?thesis
      using posts_flow [of ?d ?ep ?rb pre "[LogErrorExpired ?ex]" "fires pre - answers pre" later]
        three
      by (simp add: sched)
  qed
  from d bound stop expired show ?thesis
    by (simp add: Let_def)
qed

theorem at_most_three_polls_witness:
  "promise (acquireTokenWithDeviceCode sample_externals sample_config sample_authority
      sample_request sample_response 100 four_firings) = Rejected DeviceCodeExpiredError
   \<and> posts (trace (acquireTokenWithDeviceCode sample_externals sample_config sample_authority
      sample_request sample_response 100 four_firings)) = 3"
proof -
  let ?pre = "[Fire False 105, Fire False 110, Answer pending_answer, Fire False 115,
      Answer pending_answer, Answer pending_answer]"
  have e: "expiresIn sample_response = Some 16" and i: "interval sample_response = Some 5"
    by (simp_all add: sample_response_def)
  have "\<forall>k < 4. 100 + 5 * (int k + 1) \<le> fire_clocks four_firings ! k"
    by (simp add: four_firings_def eval_nat_numeral All_less_Suc)
  then have o: "on_schedule 100 5 (fire_clocks four_firings)"
    by (simp add: on_schedule_def four_firings_def)
  have s: "four_firings = ?pre @ Fire False 120 # []"
    by (simp add: four_firings_def)
  have f: "fires ?pre = 3"
    by (simp add: fires_def)
  have p: "keeps_polling (deviceCodeExpirationTime 100 sample_response) 0 ?pre"
    by (simp add: reaches_post_def deviceCodeExpirationTime_def
        AUTHORIZATION_PENDING_def sample_defs)
  from at_most_three_polls
         [OF e i o, where x = sample_externals and config = sample_config
            and auth = sample_authority and request = sample_request
            and pre = ?pre and t = 120 and later = "[]", unfolded Let_def]
       s f p
  show ?thesis by blast
qed

subsection \<open>The schedule of the firings\<close>

lemma timer_delay_pos: "1 \<le> timer_delay d"
  by (cases d) simp_all

lemma fires_Cons: "fires (st # sched) = (if is_fire st then 1 else 0) + fires sched"
  by (simp add: fires_def)

lemma fires_until:
  assumes "due_times delay j ts"
    and "firing_due delay k \<le> t"
    and "t < firing_due delay (Suc k)"
  shows "fires (steps_until t ts) = min (k - j) (fires (map snd ts))"
  using assms(1)
proof (induction ts arbitrary: j)
  case Nil
  then show ?case by (simp add: steps_until_def fires_def)
next
  case (Cons p ts)
  obtain u st where p: "p = (u, st)" by (cases p)
  show ?case
  proof (cases st)
    case (Answer a)
    with Cons.prems p have "due_times delay j ts" by simp
    from Cons.IH [OF this] Answer p show ?thesis
      by (simp add: steps_until_def fires_def)
  next
    case (Fire c n)
    with Cons.prems p have u: "u = firing_due delay (Suc j)"
      and rest: "due_times delay (Suc j) ts"
      by simp_all
    note ih = Cons.IH [OF rest]
    have D: "0 < timer_delay delay"
      using timer_delay_pos [of delay] by simp
    show ?thesis
    proof (cases "j < k")
      case True
      then have "int (Suc j) * timer_delay delay \<le> int k * timer_delay delay"
        using D by (intro mult_right_mono) simp_all
      with assms(2) have "u \<le> t"
        by (simp add: u firing_due_def)
      with ih True Fire p show ?thesis
        by (simp add: steps_until_def fires_def)
    next
      case False
      then have "int (Suc k) * timer_delay delay \<le> int (Suc j) * timer_delay delay"
        using D by (intro mult_right_mono) simp_all
      with assms(3) have "\<not> u \<le> t"
        by (simp add: u firing_due_def)
      with ih False Fire p show ?thesis
        by (simp add: steps_until_def fires_def)
    qed
  qed
qed

lemma no_fires_before:
  assumes "due_times delay j ts" and "t < timer_delay delay"
  shows "fires (steps_until t ts) = 0"
  using assms(1)
proof (induction ts arbitrary: j)
  case Nil
  then show ?case by (simp add: steps_until_def fires_def)
next
  case (Cons p ts)
  obtain u st where p: "p = (u, st)" by (cases p)
  show ?case
  proof (cases st)
    case (Answer a)
    with Cons.prems p have "due_times delay j ts" by simp
    from Cons.IH [OF this] Answer p show ?thesis
      by (simp add: steps_until_def fires_def)
  next
    case (Fire c n)
    with Cons.prems p have u: "u = firing_due delay (Suc j)"
      and rest: "due_times delay (Suc j) ts"
      by simp_all
    have "int 1 * timer_delay delay \<le> int (Suc j) * timer_delay delay"
      using timer_delay_pos [of delay] by (intro mult_right_mono) simp_all
    with assms(2) have "\<not> u \<le> t"
      by (simp add: u firing_due_def)
    with Cons.IH [OF rest] Fire p show ?thesis
      by (simp add: steps_until_def fires_def)
  qed
qed

lemma run_no_fires:
  "fires sched = 0 \<Longrightarrow> awaiting s = 0 \<Longrightarrow> run ep rb ex sched s = s"
proof (induction sched arbitrary: s)
  case Nil
  then show ?case by simp
next
  case (Cons st sched)
  then show ?case by (cases st) (simp_all add: fires_def)
qed

lemma first_event:
  "hd (trace (acquireTokenWithDeviceCode x config auth request r now0 sched)) =
     SetInterval (pollingIntervalMilli r)"
proof -
  obtain evs where "trace (acquireTokenWithDeviceCode x config auth request r now0 sched) =
      trace (polling_start (pollingIntervalMilli r)) @ evs"
    unfolding acquireTokenWithDeviceCode_def Let_def using run_events by blast
  then show ?thesis
    by (simp add: polling_start_def)
qed

text \<open>
  C7, as the code has it. The timer is set with \<^verbatim>\<open>interval * 1000\<close>; the delay it uses is
  that number of milliseconds when it lies between 1 and 2147483647, and 1 millisecond
  otherwise (an interval that is missing, not positive or too large). Firing number \<open>k\<close>
  is due \<open>k\<close> delays after the set-up: the first evaluation happens one full delay after
  polling begins, and until then the engine is in its initial state. Between the due times
  of firing \<open>k\<close> and firing \<open>k + 1\<close> exactly the first \<open>k\<close> firings have happened; a firing
  that finds the timer set evaluates the transition rule once; the timer is set exactly as
  long as the promise is pending; and once the timer is cleared nothing that happens later
  changes the promise or sends a POST.
\<close>

theorem first_firing_after_one_interval:
  assumes "on_timer (pollingIntervalMilli r) ts"
  shows "hd (trace (acquireTokenWithDeviceCode x config auth request r now0 sched)) =
           SetInterval (pollingIntervalMilli r)
       \<and> pollingIntervalMilli r = (case interval r of Some n \<Rightarrow> Num (n * 1000) | None \<Rightarrow> NaN)
       \<and> timer_delay (pollingIntervalMilli r) =
           (case interval r of
              Some n \<Rightarrow> if 1 \<le> n \<and> n * 1000 \<le> 2147483647 then n * 1000 else 1
            | None \<Rightarrow> 1)
       \<and> firing_due (pollingIntervalMilli r) k = int k * timer_delay (pollingIntervalMilli r)
       \<and> (t < timer_delay (pollingIntervalMilli r) \<longrightarrow>
            acquireTokenWithDeviceCode_after x config auth request r now0 ts t =
              polling_start (pollingIntervalMilli r))
       \<and> (firing_due (pollingIntervalMilli r) k \<le> t
            \<and> t < firing_due (pollingIntervalMilli r) (Suc k) \<longrightarrow>
            fires (steps_until t ts) = min k (fires (map snd ts)))
       \<and> (timer_active (acquireTokenWithDeviceCode x config auth request r now0 sched) \<longrightarrow>
            acquireTokenWithDeviceCode x config auth request r now0 (sched @ [Fire c u]) =
              fire (tokenEndpoint auth) (createTokenRequestBody x config request r)
                (deviceCodeExpirationTime now0 r) c u
                (acquireTokenWithDeviceCode x config auth request r now0 sched))
       \<and> consistent (acquireTokenWithDeviceCode x config auth request r now0 sched)
       \<and> (\<not> timer_active (acquireTokenWithDeviceCode x config auth request r now0 sched) \<longrightarrow>
            promise (acquireTokenWithDeviceCode x config auth request r now0 (sched @ later)) =
              promise (acquireTokenWithDeviceCode x config auth request r now0 sched)
            \<and> \<not> timer_active
                  (acquireTokenWithDeviceCode x config auth request r now0 (sched @ later))
            \<and> posts (trace
                  (acquireTokenWithDeviceCode x config auth request r now0 (sched @ later))) =
                posts (trace (acquireTokenWithDeviceCode x config auth request r now0 sched)))"
proof -
  let ?d = "pollingIntervalMilli r"
  let ?A = "acquireTokenWithDeviceCode x config auth request r now0"
  from assms have due: "due_times ?d 0 ts"
    by (simp add: on_timer_def)
  have d: "?d = (case interval r of Some n \<Rightarrow> Num (n * 1000) | None \<Rightarrow> NaN)"
    by (simp add: pollingIntervalMilli_def split: option.splits)
  have delay: "timer_delay ?d =
      (case interval r of
         Some n \<Rightarrow> if 1 \<le> n \<and> n * 1000 \<le> 2147483647 then n * 1000 else 1
       | None \<Rightarrow> 1)"
    by (auto simp add: d split: option.splits)
  have between: "fires (steps_until t ts) = min k (fires (map snd ts))"
    if "firing_due ?d k \<le> t" and "t < firing_due ?d (Suc k)" for k
    using fires_until [OF due that] by simp
  have start: "acquireTokenWithDeviceCode_after x config auth request r now0 ts t =
      polling_start ?d" if "t < timer_delay ?d"
  proof -
    have "fires (steps_until t ts) = 0"
      using due that by (rule no_fires_before)
    then show ?thesis
      by (simp add: acquireTokenWithDeviceCode_after_def acquireTokenWithDeviceCode_def
          Let_def run_no_fires polling_start_def)
  qed
  have step: "?A (sched @ [Fire c u]) =
      fire (tokenEndpoint auth) (createTokenRequestBody x config request r)
        (deviceCodeExpirationTime now0 r) c u (?A sched)"
    if "timer_active (?A sched)"
    using that by (simp add: flow_append)
  have stopped: "promise (?A (sched @ later)) = promise (?A sched)
      \<and> \<not> timer_active (?A (sched @ later))
      \<and> posts (trace (?A (sched @ later))) = posts (trace (?A sched))"
    if "\<not> timer_active (?A sched)"
  proof -
    from that flow_consistent [of x config auth request r now0 sched]
    have "stopped (?A sched)"
      by (simp add: stopped_def consistent_def)
    from run_stopped [OF this, of "tokenEndpoint auth"
        "createTokenRequestBody x config request r" "deviceCodeExpirationTime now0 r" later]
    show ?thesis
      by (simp add: flow_append stopped_def posts_append posts_late_events)
  qed
  from first_event [of x config auth request r now0 sched] d delay between start step
    flow_consistent [of x config auth request r now0 sched] stopped
  show ?thesis
    by (simp add: firing_due_def)
qed

theorem first_firing_after_one_interval_witness:
  "acquireTokenWithDeviceCode_after sample_externals sample_config sample_authority
     sample_request sample_response 100 four_firings_timed 4999 = polling_start (Num 5000)
   \<and> fires (steps_until 12000 four_firings_timed) = 2"
proof -
  have d: "pollingIntervalMilli sample_response = Num 5000"
    by (simp add: pollingIntervalMilli_def sample_response_def)
  have o: "on_timer (pollingIntervalMilli sample_response) four_firings_timed"
    by (simp add: on_timer_def four_firings_timed_def firing_due_def d)
  note r = first_firing_after_one_interval
    [OF o, where x = sample_externals and config = sample_config and auth = sample_authority
       and request = sample_request and ?now0.0 = 100]
  from r [where t = 4999]
  have "4999 < timer_delay (pollingIntervalMilli sample_response) \<longrightarrow>
     acquireTokenWithDeviceCode_after sample_externals sample_config sample_authority
       sample_request sample_response 100 four_firings_timed 4999 =
       polling_start (pollingIntervalMilli sample_response)"
    by blast
  then have 1: "acquireTokenWithDeviceCode_after sample_externals sample_config sample_authority
     sample_request sample_response 100 four_firings_timed 4999 = polling_start (Num 5000)"
    by (simp add: d)
  from r [where t = 12000 and k = 2]
  have "firing_due (pollingIntervalMilli sample_response) 2 \<le> 12000
        \<and> 12000 < firing_due (pollingIntervalMilli sample_response) (Suc 2) \<longrightarrow>
     fires (steps_until 12000 four_firings_timed) = min 2 (fires (map snd four_firings_timed))"
    by blast
  then have "fires (steps_until 12000 four_firings_timed) =
      min 2 (fires (map snd four_firings_timed))"
    by (simp add: firing_due_def d)
  then have "fires (steps_until 12000 four_firings_timed) = 2"
    by (simp add: four_firings_timed_def fires_def)
  with 1 show ?thesis by blast
qed

text \<open>
  The flag is set from the start and the interval is 5 seconds: when polling begins (0
  milliseconds after the set-up) nothing has been evaluated and the promise is pending;
  the flow is cancelled 5000 milliseconds later, at the first firing.
\<close>

theorem no_firing_when_polling_begins:
  "pollingIntervalMilli sample_response = Num 5000
   \<and> on_timer (Num 5000) [(5000, Fire True 100)]
   \<and> acquireTokenWithDeviceCode_after sample_externals sample_config sample_authority
       sample_request sample_response 100 [(5000, Fire True 100)] 0
     = \<lparr>promise = Pending, timer_active = True, awaiting = 0,
        trace = [SetInterval (Num 5000)]\<rparr>
   \<and> acquireTokenWithDeviceCode_after sample_externals sample_config sample_authority
       sample_request sample_response 100 [(5000, Fire True 100)] 5000
     = \<lparr>promise = Rejected DeviceCodeCancelledError, timer_active = False, awaiting = 0,
        trace = [SetInterval (Num 5000), LogErrorCancelled]\<rparr>"
  by (simp add: acquireTokenWithDeviceCode_after_def acquireTokenWithDeviceCode_def
      steps_until_def on_timer_def firing_due_def pollingIntervalMilli_def polling_start_def
      fire_def stop_with_def emit_def Let_def sample_response_def)

subsection \<open>The device code endpoint client\<close>

text \<open>
  C8, as the code has it. When the transport call fails, \<^verbatim>\<open>getDeviceCode\<close> fails with the
  error of the transport, as it is. When the response has a body, \<^verbatim>\<open>getDeviceCode\<close>
  returns a \<^verbatim>\<open>DeviceCodeResponse\<close> whose six fields are the six fields of the body as they
  are: no field is checked, and a field that the body lacks is left undefined.
\<close>

theorem getDeviceCode_copies_the_body:
  "(get_result w = Inl e \<longrightarrow> snd (getDeviceCode x config auth w request) = Inl e)
   \<and> (get_result w = Inr (Some b) \<longrightarrow>
        snd (getDeviceCode x config auth w request) =
          Inr \<lparr>userCode = user_code b,
               deviceCode = device_code b,
               verificationUri = verification_uri b,
               expiresIn = expires_in b,
               interval = server_interval b,
               message = server_message b\<rparr>)"
  by (simp add: getDeviceCode_def executeGetRequestToDeviceCodeEndpoint_def Let_def)

theorem getDeviceCode_copies_the_body_witness:
  "snd (getDeviceCode sample_externals sample_config sample_authority
         ((sample_world [])\<lparr>get_result := Inl (Thrown ''ECONNREFUSED'')\<rparr>) sample_request)
     = Inl (Thrown ''ECONNREFUSED'')
   \<and> snd (getDeviceCode sample_externals sample_config sample_authority
         (sample_world []) sample_request)
     = Inr sample_response"
proof -
  have a: "get_result ((sample_world [])\<lparr>get_result := Inl (Thrown ''ECONNREFUSED'')\<rparr>)
             = Inl (Thrown ''ECONNREFUSED'')"
    by simp
  have b: "get_result (sample_world []) = Inr (Some sample_server_response)"
    by (simp add: sample_world_def)
  have c: "\<lparr>userCode = user_code sample_server_response,
            deviceCode = device_code sample_server_response,
            verificationUri = verification_uri sample_server_response,
            expiresIn = expires_in sample_server_response,
            interval = server_interval sample_server_response,
            message = server_message sample_server_response\<rparr> = sample_response"
    by (simp add: sample_server_response_def sample_response_def)
  note r = getDeviceCode_copies_the_body
    [where x = sample_externals and config = sample_config and auth = sample_authority
       and request = sample_request]
  from r [where w = "(sample_world [])\<lparr>get_result := Inl (Thrown ''ECONNREFUSED'')\<rparr>"
            and e = "Thrown ''ECONNREFUSED''"] a
  have 1: "snd (getDeviceCode sample_externals sample_config sample_authority
         ((sample_world [])\<lparr>get_result := Inl (Thrown ''ECONNREFUSED'')\<rparr>) sample_request)
     = Inl (Thrown ''ECONNREFUSED'')"
    by blast
  from r [where w = "sample_world []" and b = sample_server_response] b
  have "snd (getDeviceCode sample_externals sample_config sample_authority
         (sample_world []) sample_request)
     = Inr \<lparr>userCode = user_code sample_server_response,
            deviceCode = device_code sample_server_response,
            verificationUri = verification_uri sample_server_response,
            expiresIn = expires_in sample_server_response,
            interval = server_interval sample_server_response,
            message = server_message sample_server_response\<rparr>"
    by blast
  with 1 c show ?thesis by simp
qed

text \<open>
  An answer without \<^verbatim>\<open>device_code\<close> and \<^verbatim>\<open>interval\<close> is returned as a
  \<^verbatim>\<open>DeviceCodeResponse\<close> with these two fields undefined; nothing is raised.
\<close>

theorem incomplete_response_is_returned:
  "device_code incomplete_server_response = None
   \<and> server_interval incomplete_server_response = None
   \<and> snd (getDeviceCode sample_externals sample_config sample_authority
         ((sample_world [])\<lparr>get_result := Inr (Some incomplete_server_response)\<rparr>)
         sample_request)
     = Inr \<lparr>userCode = Some ''FJC3XK9PD'',
            deviceCode = None,
            verificationUri = Some ''https://microsoft.com/devicelogin'',
            expiresIn = Some 16,
            interval = None,
            message = Some ''To sign in, open the page and enter the code''\<rparr>"
  by (simp add: getDeviceCode_def executeGetRequestToDeviceCodeEndpoint_def Let_def
      incomplete_server_response_def)


subsection \<open>The request builder\<close>

lemma ScopeSet_sorted_list:
  "ScopeSet x inputScopes cid flag =
     sorted_list_of_set (set inputScopes \<union> set (required_scopes x cid flag))"
proof -
  have "sort (remdups (inputScopes @ required_scopes x cid flag)) =
        sorted_list_of_set (set (inputScopes @ required_scopes x cid flag))"
    by (simp only: sorted_list_of_set_sort_remdups)
  then show ?thesis
    by (simp add: ScopeSet_def)
qed

text \<open>
  C9. Two scope inputs with the same elements, in whatever order and however often
  repeated, give the same query string. The query string is the \<^verbatim>\<open>scope\<close> parameter
  followed by the \<^verbatim>\<open>client_id\<close> parameter; the scopes of the \<^verbatim>\<open>scope\<close> parameter are the
  input scopes together with the required default scopes, each of them once, in one fixed
  order.
\<close>

theorem scopes_are_canonical:
  assumes "set xs = set ys"
  shows "createQueryString x config (request\<lparr>scopes := Some xs\<rparr>) =
           createQueryString x config (request\<lparr>scopes := Some ys\<rparr>)
       \<and> createQueryString x config (request\<lparr>scopes := Some xs\<rparr>) =
           ''scope='' @ encodeURIComponent (join '' '' (ScopeSet x xs (clientId config) False))
             @ ''&client_id='' @ encodeURIComponent (clientId config)
       \<and> ScopeSet x xs cid flag = ScopeSet x ys cid flag
       \<and> distinct (ScopeSet x xs cid flag)
       \<and> sorted (ScopeSet x xs cid flag)
       \<and> set (ScopeSet x xs cid flag) = set xs \<union> set (required_scopes x cid flag)"
proof -
  have eq: "ScopeSet x xs c f = ScopeSet x ys c f" for c f
    using assms by (simp add: ScopeSet_sorted_list)
  have "createQueryString x config (request\<lparr>scopes := Some xs\<rparr>) =
        createQueryString x config (request\<lparr>scopes := Some ys\<rparr>)"
    by (simp add: createQueryString_def eq)
  moreover have "createQueryString x config (request\<lparr>scopes := Some xs\<rparr>) =
           ''scope='' @ encodeURIComponent (join '' '' (ScopeSet x xs (clientId config) False))
             @ ''&client_id='' @ encodeURIComponent (clientId config)"
    by (simp add: createQueryString_def Let_def builder_createQueryString_def addScopes_def
        addClientId_def)
  moreover have "distinct (ScopeSet x xs cid flag)" "sorted (ScopeSet x xs cid flag)"
    "set (ScopeSet x xs cid flag) = set xs \<union> set (required_scopes x cid flag)"
    by (simp_all add: ScopeSet_sorted_list)
  ultimately show ?thesis
    using eq by simp
qed

theorem scopes_are_canonical_witness:
  "createQueryString sample_externals sample_config
     (sample_request\<lparr>scopes := Some [''openid'', ''profile'']\<rparr>) =
   createQueryString sample_externals sample_config
     (sample_request\<lparr>scopes := Some [''profile'', ''openid'']\<rparr>)"
proof -
  have h: "set [''openid'', ''profile''] = set [''profile'', ''openid'']"
    by (simp add: insert_commute)
  from scopes_are_canonical [OF h] show ?thesis by blast
qed

text \<open>The query string of the sample client for a request that repeats a scope.\<close>

lemma sample_query_string:
  "createQueryString sample_externals sample_config
     (sample_request\<lparr>scopes := Some [''profile'', ''openid'', ''User.Read'', ''openid'']\<rparr>) =
   ''scope=User.Read%20offline_access%20openid%20profile&client_id=99cab759-2aab-420b-91d8-5e3d8d4f063b''"
  by code_simp

end
